theory Spec2Isabelle
  imports Complex_Main
begin

section \<open>Data model (db/schema, types/job.types)\<close>

text \<open>
  Timestamps are stored as ISO-8601 text written by \<open>new Date().toISOString()\<close> and read
  back with \<open>new Date(text).getTime()\<close>; the model keeps the millisecond count itself.
  Text of that fixed format orders as the millisecond counts do, so \<open>ORDER BY\<close> on the
  column is an order on these numbers, with SQL \<open>NULL\<close> below every value.
\<close>

type_synonym time_ms = int

datatype run_status = Running | Completed | Failed

record ScraperRun =
  run_id :: nat
  run_source :: string
  run_status :: run_status
  run_jobsFound :: nat
  run_newJobs :: nat
  run_startedAt :: time_ms
  run_completedAt :: "time_ms option"
  run_error :: "string option"
  run_createdAt :: time_ms

record Job =
  job_id :: nat
  title :: string
  company :: string
  location :: "string option"
  url :: string
  description :: "string option"
  salary :: "string option"
  jobType :: "string option"
  postedAt :: "string option"
  roleSlug :: "string option"
  source :: string
  isNewInLastHour :: bool
  firstSeen :: time_ms
  lastSeen :: time_ms
  createdAt :: time_ms
  updatedAt :: time_ms

record ScrapedJob =
  sj_title :: string
  sj_company :: string
  sj_location :: string
  sj_url :: string
  sj_description :: string
  sj_salary :: string
  sj_job_type :: string
  sj_posted_at :: string
  sj_role_slug :: string
  sj_source :: string

record ScraperResult =
  success :: bool
  keyword :: string
  timestamp :: string
  total_jobs :: int
  jobs :: "ScrapedJob list"
  error :: "string option"

section \<open>Cooldown gate (canRunScraper)\<close>

text \<open>
  \<open>MIN_INTERVAL_HOURS = parseInt(process.env.MIN_SCRAPER_INTERVAL_HOURS || '2')\<close>:
  the environment variable, when present, is taken here as the integer it parses to.
\<close>

definition MIN_INTERVAL_HOURS :: "int option \<Rightarrow> int" where
  "MIN_INTERVAL_HOURS env = (case env of None \<Rightarrow> 2 | Some h \<Rightarrow> h)"

record can_run_result =
  canRun :: bool
  minutesUntilNext :: int

text \<open>SQLite's order on a nullable column: \<open>NULL\<close> is the least element.\<close>

fun null_le :: "time_ms option \<Rightarrow> time_ms option \<Rightarrow> bool" where
  "null_le None _ = True"
| "null_le (Some a) None = False"
| "null_le (Some a) (Some b) = (a \<le> b)"

text \<open>\<open>.orderBy(desc(scraperRuns.completedAt)).limit(1)\<close>: a row of greatest completion time.\<close>

fun orderBy_desc_completedAt_limit1 :: "ScraperRun list \<Rightarrow> ScraperRun list" where
  "orderBy_desc_completedAt_limit1 [] = []"
| "orderBy_desc_completedAt_limit1 (r # rs) =
     (case orderBy_desc_completedAt_limit1 rs of
        [] \<Rightarrow> [r]
      | r' # _ \<Rightarrow> if null_le (run_completedAt r') (run_completedAt r) then [r] else [r'])"

definition completed_runs_of :: "string \<Rightarrow> ScraperRun list \<Rightarrow> ScraperRun list" where
  "completed_runs_of src runs =
     filter (\<lambda>r. run_source r = src \<and> run_status r = Completed) runs"

text \<open>
  The source divides two doubles and rounds up; the model computes the same quotient
  exactly, in the rationals. The two agree whenever the millisecond difference is far
  below \<open>2^53\<close>, which every pair of real timestamps is.
\<close>

definition canRunScraper :: "int \<Rightarrow> ScraperRun list \<Rightarrow> time_ms \<Rightarrow> string \<Rightarrow> can_run_result" where
  "canRunScraper min_interval_hours runs now src =
     (case orderBy_desc_completedAt_limit1 (completed_runs_of src runs) of
        [] \<Rightarrow> \<lparr>canRun = True, minutesUntilNext = 0\<rparr>
      | lastRun # _ \<Rightarrow>
          (case run_completedAt lastRun of
             None \<Rightarrow> \<lparr>canRun = True, minutesUntilNext = 0\<rparr>
           | Some lastRunTime \<Rightarrow>
               let minutesSinceLastRun = (of_int (now - lastRunTime) / (1000 * 60) :: rat);
                   requiredMinutes = (of_int (min_interval_hours * 60) :: rat)
               in if minutesSinceLastRun < requiredMinutes
                  then \<lparr>canRun = False,
                        minutesUntilNext = \<lceil>requiredMinutes - minutesSinceLastRun\<rceil>\<rparr>
                  else \<lparr>canRun = True, minutesUntilNext = 0\<rparr>))"

text \<open>The completion times the gate can choose from, and the latest of them.\<close>

definition completion_times :: "string \<Rightarrow> ScraperRun list \<Rightarrow> time_ms list" where
  "completion_times src runs =
     concat (map (\<lambda>r. case run_completedAt r of None \<Rightarrow> [] | Some t \<Rightarrow> [t])
                 (completed_runs_of src runs))"

definition elapsed_minutes :: "time_ms \<Rightarrow> time_ms \<Rightarrow> rat" where
  "elapsed_minutes now t = of_int (now - t) / 60000"

section \<open>Ingestion (upsertJobs)\<close>

text \<open>JavaScript's \<open>s || null\<close> and \<open>s || 'other'\<close> on a string: the empty string is falsy.\<close>

definition or_null :: "string \<Rightarrow> string option" where
  "or_null s = (if s = [] then None else Some s)"

definition or_default :: "string \<Rightarrow> string \<Rightarrow> string" where
  "or_default s d = (if s = [] then d else s)"

text \<open>An \<open>AUTOINCREMENT\<close> primary key: above every key of the table.\<close>

definition next_id :: "nat list \<Rightarrow> nat" where
  "next_id ids = Suc (fold max ids 0)"

datatype db_error = UniqueViolation string

text \<open>\<open>db.insert(jobs).values(...)\<close>; the column \<open>url\<close> is declared \<open>unique()\<close>.\<close>

definition insert_job :: "Job list \<Rightarrow> (nat \<Rightarrow> Job) \<Rightarrow> db_error + Job list" where
  "insert_job tbl values =
     (let row = values (next_id (map job_id tbl))
      in if \<exists>j \<in> set tbl. url j = url row then Inl (UniqueViolation ''jobs.url'')
         else Inr (tbl @ [row]))"

definition new_job :: "time_ms \<Rightarrow> ScrapedJob \<Rightarrow> nat \<Rightarrow> Job" where
  "new_job nowIso scrapedJob i =
     \<lparr>job_id = i,
      title = sj_title scrapedJob,
      company = sj_company scrapedJob,
      location = or_null (sj_location scrapedJob),
      url = sj_url scrapedJob,
      description = or_null (sj_description scrapedJob),
      salary = or_null (sj_salary scrapedJob),
      jobType = or_null (sj_job_type scrapedJob),
      postedAt = or_null (sj_posted_at scrapedJob),
      roleSlug = Some (or_default (sj_role_slug scrapedJob) ''other''),
      source = sj_source scrapedJob,
      isNewInLastHour = True,
      firstSeen = nowIso,
      lastSeen = nowIso,
      createdAt = nowIso,
      updatedAt = nowIso\<rparr>"

text \<open>\<open>db.update(jobs).set({ isNewInLastHour: false }).where(eq(jobs.source, source))\<close>\<close>

definition mark_not_new :: "string \<Rightarrow> Job list \<Rightarrow> Job list" where
  "mark_not_new src tbl =
     map (\<lambda>j. if source j = src then j\<lparr>isNewInLastHour := False\<rparr> else j) tbl"

text \<open>The update of the rows with a given URL, as the loop's first branch writes it.\<close>

definition touch_url :: "time_ms \<Rightarrow> string \<Rightarrow> Job list \<Rightarrow> Job list" where
  "touch_url nowIso u tbl =
     map (\<lambda>j. if url j = u
               then j\<lparr>lastSeen := nowIso, isNewInLastHour := False, updatedAt := nowIso\<rparr>
               else j) tbl"

text \<open>
  One turn of the loop over \<open>result.jobs\<close>, on the table and the running count of new
  rows. An error of the insert is caught and the record skipped.
\<close>

definition upsert_one :: "time_ms \<Rightarrow> ScrapedJob \<Rightarrow> Job list \<times> nat \<Rightarrow> Job list \<times> nat" where
  "upsert_one nowIso scrapedJob st =
     (case st of (tbl, newJobsCount) \<Rightarrow>
        let existing = take 1 (filter (\<lambda>j. url j = sj_url scrapedJob) tbl)
        in if length existing > 0
           then (touch_url nowIso (sj_url scrapedJob) tbl, newJobsCount)
           else (case insert_job tbl (new_job nowIso scrapedJob) of
                   Inr tbl' \<Rightarrow> (tbl', newJobsCount + 1)
                 | Inl err \<Rightarrow> (tbl, newJobsCount)))"

text \<open>The loop; \<open>clk i\<close> is what \<open>new Date()\<close> reads in turn \<open>i\<close>.\<close>

fun upsert_loop ::
  "(nat \<Rightarrow> time_ms) \<Rightarrow> nat \<Rightarrow> ScrapedJob list \<Rightarrow> Job list \<times> nat \<Rightarrow> Job list \<times> nat" where
  "upsert_loop clk i [] st = st"
| "upsert_loop clk i (scrapedJob # rest) st =
     upsert_loop clk (Suc i) rest (upsert_one (clk i) scrapedJob st)"

record upsert_stats =
  totalJobs :: nat
  newJobs :: nat

definition upsertJobs ::
  "(nat \<Rightarrow> time_ms) \<Rightarrow> ScraperResult \<Rightarrow> string \<Rightarrow> Job list \<Rightarrow> Job list \<times> upsert_stats" where
  "upsertJobs clk result src tbl =
     (case upsert_loop clk 0 (jobs result) (mark_not_new src tbl, 0) of
        (tbl', newJobsCount) \<Rightarrow>
          (tbl', \<lparr>totalJobs = length (jobs result), newJobs = newJobsCount\<rparr>))"

section \<open>Invoker (runPythonScraper)\<close>

text \<open>
  The promise that \<open>runPythonScraper\<close> returns is driven by the events of the child
  process: chunks on its two output streams, \<open>close\<close> with the exit code (\<open>null\<close> when a
  signal ended it) and \<open>error\<close> when it could not be started. These four handlers are all
  the function registers. A promise settles once; later calls of \<open>resolve\<close> and
  \<open>reject\<close> change nothing. A rejection is kept as the message of its \<open>Error\<close>.
\<close>

datatype proc_event =
    StdoutData string
  | StderrData string
  | Close "int option"
  | ProcError string

datatype 'a promise = Pending | Resolved 'a | Rejected string

record invoker_state =
  stdoutData :: string
  stderrData :: string
  settled :: "ScraperResult promise"

definition settle :: "ScraperResult promise \<Rightarrow> invoker_state \<Rightarrow> invoker_state" where
  "settle p st = (if settled st = Pending then st\<lparr>settled := p\<rparr> else st)"

definition digit_char :: "nat \<Rightarrow> char" where
  "digit_char d = ''0123456789'' ! d"

fun show_nat :: "nat \<Rightarrow> string" where
  "show_nat n = (if n < 10 then [digit_char n] else show_nat (n div 10) @ [digit_char (n mod 10)])"

declare show_nat.simps [simp del]

definition show_int :: "int \<Rightarrow> string" where
  "show_int i = (if i < 0 then ''-'' @ show_nat (nat (- i)) else show_nat (nat i))"

definition show_code :: "int option \<Rightarrow> string" where
  "show_code c = (case c of None \<Rightarrow> ''null'' | Some i \<Rightarrow> show_int i)"

text \<open>
  The handler of \<open>close\<close>. \<open>JSON.parse\<close> is a parameter: \<open>None\<close> where it throws, and
  else the document read as a \<open>ScraperResult\<close>.
\<close>

definition on_close ::
  "(string \<Rightarrow> ScraperResult option) \<Rightarrow> int option \<Rightarrow> string \<Rightarrow> string \<Rightarrow> ScraperResult promise" where
  "on_close JSON_parse code out err =
     (if code \<noteq> Some 0
      then Rejected (''Scraper failed with code '' @ show_code code @ '': '' @ err)
      else (case JSON_parse out of
              None \<Rightarrow> Rejected ''Failed to parse scraper JSON output''
            | Some result \<Rightarrow>
                if \<not> success result
                then Rejected (or_default (case error result of None \<Rightarrow> [] | Some e \<Rightarrow> e)
                                          ''Scraper failed'')
                else Resolved result))"

fun handle_event ::
  "(string \<Rightarrow> ScraperResult option) \<Rightarrow> proc_event \<Rightarrow> invoker_state \<Rightarrow> invoker_state" where
  "handle_event JSON_parse (StdoutData d) st = st\<lparr>stdoutData := stdoutData st @ d\<rparr>"
| "handle_event JSON_parse (StderrData d) st = st\<lparr>stderrData := stderrData st @ d\<rparr>"
| "handle_event JSON_parse (Close code) st =
     settle (on_close JSON_parse code (stdoutData st) (stderrData st)) st"
| "handle_event JSON_parse (ProcError msg) st = settle (Rejected msg) st"

fun handle_events ::
  "(string \<Rightarrow> ScraperResult option) \<Rightarrow> proc_event list \<Rightarrow> invoker_state \<Rightarrow> invoker_state" where
  "handle_events JSON_parse [] st = st"
| "handle_events JSON_parse (e # es) st = handle_events JSON_parse es (handle_event JSON_parse e st)"

text \<open>
  The promise after the events the process has delivered. \<open>Pending\<close> after all the events
  a process ever delivers means that \<open>await\<close> does not return.
\<close>

definition runPythonScraper ::
  "(string \<Rightarrow> ScraperResult option) \<Rightarrow> proc_event list \<Rightarrow> ScraperResult promise" where
  "runPythonScraper JSON_parse events =
     settled (handle_events JSON_parse events
                \<lparr>stdoutData = [], stderrData = [], settled = Pending\<rparr>)"

definition is_data :: "proc_event \<Rightarrow> bool" where
  "is_data e = (case e of StdoutData _ \<Rightarrow> True | StderrData _ \<Rightarrow> True | _ \<Rightarrow> False)"

definition stdout_of :: "proc_event list \<Rightarrow> string" where
  "stdout_of es = concat (map (\<lambda>e. case e of StdoutData d \<Rightarrow> d | _ \<Rightarrow> []) es)"

definition stderr_of :: "proc_event list \<Rightarrow> string" where
  "stderr_of es = concat (map (\<lambda>e. case e of StderrData d \<Rightarrow> d | _ \<Rightarrow> []) es)"

section \<open>Scheduler and coordinator (scheduleNextRun, runScraperWorkflow)\<close>

record timer =
  timer_source :: string
  timer_keyword :: string
  timer_delay_ms :: int

record world =
  jobs_tbl :: "Job list"
  scraperRuns_tbl :: "ScraperRun list"
  activeSchedules :: "string \<rightharpoonup> timer"
  spawned :: "(string \<times> string) list"

text \<open>
  \<open>scheduleNextRun\<close>: the timer stored under the key replaces the one that was there,
  which \<open>clearTimeout\<close> has cancelled.
\<close>

definition scheduleNextRun ::
  "string \<Rightarrow> string \<Rightarrow> int \<Rightarrow> (string \<rightharpoonup> timer) \<Rightarrow> (string \<rightharpoonup> timer)" where
  "scheduleNextRun src kw hours sched =
     sched(src @ ''-'' @ kw \<mapsto>
       \<lparr>timer_source = src, timer_keyword = kw, timer_delay_ms = hours * 60 * 60 * 1000\<rparr>)"

text \<open>What the clock shows at each point of one call of the coordinator.\<close>

record clock =
  check_time :: "string \<Rightarrow> time_ms"
  start_time :: time_ms
  db_time :: time_ms
  upsert_time :: "nat \<Rightarrow> time_ms"
  close_time :: time_ms

record workflow_result =
  wf_success :: bool
  message :: string
  stats :: "upsert_stats option"

definition sources_of :: "string \<Rightarrow> string list" where
  "sources_of src = (if src = ''all'' then [''linkedin'', ''stepstone''] else [src])"

text \<open>The loop over \<open>sources\<close>: the first source the gate blocks, with its wait.\<close>

fun first_blocked ::
  "int \<Rightarrow> ScraperRun list \<Rightarrow> (string \<Rightarrow> time_ms) \<Rightarrow> string list \<Rightarrow> (string \<times> int) option" where
  "first_blocked h runs tm [] = None"
| "first_blocked h runs tm (src # rest) =
     (let r = canRunScraper h runs (tm src) src
      in if \<not> canRun r then Some (src, minutesUntilNext r)
         else first_blocked h runs tm rest)"

definition insert_run ::
  "ScraperRun list \<Rightarrow> string \<Rightarrow> time_ms \<Rightarrow> time_ms \<Rightarrow> ScraperRun \<times> ScraperRun list" where
  "insert_run runs src startedAtIso db_now =
     (let runRecord = \<lparr>run_id = next_id (map run_id runs),
                       run_source = src,
                       run_status = Running,
                       run_jobsFound = 0,
                       run_newJobs = 0,
                       run_startedAt = startedAtIso,
                       run_completedAt = None,
                       run_error = None,
                       run_createdAt = db_now\<rparr>
      in (runRecord, runs @ [runRecord]))"

definition update_run :: "nat \<Rightarrow> (ScraperRun \<Rightarrow> ScraperRun) \<Rightarrow> ScraperRun list \<Rightarrow> ScraperRun list" where
  "update_run i f runs = map (\<lambda>r. if run_id r = i then f r else r) runs"

definition close_completed :: "time_ms \<Rightarrow> upsert_stats \<Rightarrow> ScraperRun \<Rightarrow> ScraperRun" where
  "close_completed t st r =
     r\<lparr>run_status := Completed, run_completedAt := Some t,
       run_jobsFound := totalJobs st, run_newJobs := newJobs st\<rparr>"

definition close_failed :: "time_ms \<Rightarrow> string \<Rightarrow> ScraperRun \<Rightarrow> ScraperRun" where
  "close_failed t errorMessage r =
     r\<lparr>run_status := Failed, run_completedAt := Some t, run_error := Some errorMessage\<rparr>"

text \<open>
  The coordinator. \<open>proc kw src\<close> is the list of all events of the process started with
  these arguments. The result is \<open>None\<close> when the call does not return, which is when the
  promise of the invoker stays pending; the world returned is then the one it left.
\<close>

definition runScraperWorkflow ::
  "(string \<Rightarrow> ScraperResult option) \<Rightarrow> int \<Rightarrow> clock \<Rightarrow> (string \<Rightarrow> string \<Rightarrow> proc_event list) \<Rightarrow>
   string \<Rightarrow> string \<Rightarrow> bool \<Rightarrow> world \<Rightarrow> workflow_result option \<times> world" where
  "runScraperWorkflow JSON_parse h clk proc src kw isManualTrigger w =
     (case first_blocked h (scraperRuns_tbl w) (check_time clk) (sources_of src) of
        Some (blocked, minutes) \<Rightarrow>
          (Some \<lparr>wf_success = False,
                 message = ''Must wait '' @ show_int minutes @ '' more minutes before running ''
                           @ blocked @ '' scraper'',
                 stats = None\<rparr>, w)
      | None \<Rightarrow>
          (case insert_run (scraperRuns_tbl w) src (start_time clk) (db_time clk) of
             (runRecord, runs1) \<Rightarrow>
               let w1 = w\<lparr>scraperRuns_tbl := runs1, spawned := spawned w @ [(kw, src)]\<rparr>
               in (case runPythonScraper JSON_parse (proc kw src) of
                     Pending \<Rightarrow> (None, w1)
                   | Rejected errorMessage \<Rightarrow>
                       (Some \<lparr>wf_success = False,
                              message = ''Scraper failed: '' @ errorMessage,
                              stats = None\<rparr>,
                        w1\<lparr>scraperRuns_tbl :=
                             update_run (run_id runRecord)
                               (close_failed (close_time clk) errorMessage) runs1\<rparr>)
                   | Resolved result \<Rightarrow>
                       (case upsertJobs (upsert_time clk) result src (jobs_tbl w1) of
                          (tbl', st) \<Rightarrow>
                            (Some \<lparr>wf_success = True,
                                   message = ''Scraper completed successfully'',
                                   stats = Some st\<rparr>,
                             w1\<lparr>jobs_tbl := tbl',
                                scraperRuns_tbl :=
                                  update_run (run_id runRecord)
                                    (close_completed (close_time clk) st) runs1,
                                activeSchedules :=
                                  (if isManualTrigger
                                   then scheduleNextRun src kw h (activeSchedules w1)
                                   else activeSchedules w1)\<rparr>)))))"

section \<open>Notions used to state the properties\<close>

text \<open>
  \<open>runRecord\<close>, the row that the coordinator's insert returns: status running, no
  completion time, and a key the ledger has not used.
\<close>

definition runRecord_of :: "clock \<Rightarrow> string \<Rightarrow> world \<Rightarrow> ScraperRun" where
  "runRecord_of clk src w = fst (insert_run (scraperRuns_tbl w) src (start_time clk) (db_time clk))"

section \<open>Concrete data for the worked examples\<close>

definition sample_run :: ScraperRun where
  "sample_run =
     \<lparr>run_id = 1, run_source = ''linkedin'', run_status = Completed, run_jobsFound = 3,
      run_newJobs = 1, run_startedAt = 0, run_completedAt = Some 0, run_error = None,
      run_createdAt = 0\<rparr>"

definition sample_failed_run :: ScraperRun where
  "sample_failed_run =
     \<lparr>run_id = 2, run_source = ''linkedin'', run_status = Failed, run_jobsFound = 0,
      run_newJobs = 0, run_startedAt = 1400000, run_completedAt = Some 1500000,
      run_error = Some ''blocked'', run_createdAt = 1400000\<rparr>"

definition sample_running_run :: ScraperRun where
  "sample_running_run =
     \<lparr>run_id = 3, run_source = ''linkedin'', run_status = Running, run_jobsFound = 0,
      run_newJobs = 0, run_startedAt = 1700000, run_completedAt = None,
      run_error = None, run_createdAt = 1700000\<rparr>"

definition sample_old_run :: ScraperRun where
  "sample_old_run =
     \<lparr>run_id = 4, run_source = ''linkedin'', run_status = Completed, run_jobsFound = 5,
      run_newJobs = 5, run_startedAt = - 3700000, run_completedAt = Some (- 3600000),
      run_error = None, run_createdAt = - 3700000\<rparr>"

definition sample_other_run :: ScraperRun where
  "sample_other_run =
     \<lparr>run_id = 5, run_source = ''stepstone'', run_status = Completed, run_jobsFound = 2,
      run_newJobs = 0, run_startedAt = 1700000, run_completedAt = Some 1790000,
      run_error = None, run_createdAt = 1700000\<rparr>"

definition sample_ledger :: "ScraperRun list" where
  "sample_ledger =
     [sample_old_run, sample_run, sample_failed_run, sample_running_run, sample_other_run]"

definition sample_job :: Job where
  "sample_job =
     \<lparr>job_id = 1, title = ''Firmware Engineer'', company = ''Acme'', location = Some ''Berlin'',
      url = ''https://example.com/jobs/1'', description = None, salary = None, jobType = None,
      postedAt = None, roleSlug = Some ''firmware'', source = ''linkedin'',
      isNewInLastHour = True, firstSeen = 0, lastSeen = 0, createdAt = 0, updatedAt = 0\<rparr>"

definition sample_scraped :: ScrapedJob where
  "sample_scraped =
     \<lparr>sj_title = ''Firmware Engineer'', sj_company = ''Acme'', sj_location = ''Berlin'',
      sj_url = ''https://example.com/jobs/1'', sj_description = [], sj_salary = [],
      sj_job_type = [], sj_posted_at = [], sj_role_slug = [], sj_source = ''linkedin''\<rparr>"

definition sample_scraped2 :: ScrapedJob where
  "sample_scraped2 =
     \<lparr>sj_title = ''Hardware Engineer'', sj_company = ''Initech'', sj_location = [],
      sj_url = ''https://example.com/jobs/2'', sj_description = [], sj_salary = [],
      sj_job_type = [], sj_posted_at = [], sj_role_slug = [], sj_source = ''linkedin''\<rparr>"

definition sample_result :: "ScrapedJob list \<Rightarrow> ScraperResult" where
  "sample_result js =
     \<lparr>success = True, keyword = ''embedded'', timestamp = ''2024-01-01T00:00:00'',
      total_jobs = int (length js), jobs = js, error = None\<rparr>"

definition sample_clk :: "nat \<Rightarrow> time_ms" where
  "sample_clk i = 5"

definition twice_tbl :: "Job list" where
  "twice_tbl = fst (upsertJobs sample_clk (sample_result [sample_scraped]) ''linkedin''
     (fst (upsertJobs sample_clk (sample_result [sample_scraped]) ''linkedin'' [])))"

definition blocked_doc :: string where
  "blocked_doc = ''{\"success\":false,\"error\":\"blocked\"}''"

definition ok_doc :: string where
  "ok_doc = ''{\"success\":true,\"keyword\":\"embedded\",\"timestamp\":\"2024-01-01T00:00:00\",\"total_jobs\":1,\"jobs\":[{\"title\":\"Hardware Engineer\",\"company\":\"Initech\",\"location\":\"\",\"url\":\"https://example.com/jobs/2\",\"description\":\"\",\"salary\":\"\",\"job_type\":\"\",\"posted_at\":\"\",\"role_slug\":\"\",\"source\":\"linkedin\"}]}''"

definition sample_JSON_parse :: "string \<Rightarrow> ScraperResult option" where
  "sample_JSON_parse s =
     (if s = blocked_doc
      then Some \<lparr>success = False, keyword = [], timestamp = [], total_jobs = 0, jobs = [],
                 error = Some ''blocked''\<rparr>
      else if s = ok_doc then Some (sample_result [sample_scraped2])
      else None)"

definition sample_proc_ok :: "string \<Rightarrow> string \<Rightarrow> proc_event list" where
  "sample_proc_ok kw src = [StderrData ''Scraping'', StdoutData ok_doc, Close (Some 0)]"

definition sample_proc_blocked :: "string \<Rightarrow> string \<Rightarrow> proc_event list" where
  "sample_proc_blocked kw src = [StdoutData blocked_doc, Close (Some 0)]"

definition sample_proc_hangs :: "string \<Rightarrow> string \<Rightarrow> proc_event list" where
  "sample_proc_hangs kw src = [StderrData ''Scraping'']"

definition sample_clock :: clock where
  "sample_clock =
     \<lparr>check_time = (\<lambda>s. 600000), start_time = 600000, db_time = 600000,
      upsert_time = (\<lambda>i. 600500), close_time = 601000\<rparr>"

definition sample_world :: world where
  "sample_world =
     \<lparr>jobs_tbl = [sample_job], scraperRuns_tbl = [sample_run], activeSchedules = Map.empty,
      spawned = []\<rparr>"

definition idle_world :: world where
  "idle_world =
     \<lparr>jobs_tbl = [sample_job], scraperRuns_tbl = [], activeSchedules = Map.empty,
      spawned = []\<rparr>"

section \<open>Properties of the cooldown gate\<close>

lemma limit1_Nil_iff: "orderBy_desc_completedAt_limit1 rs = [] \<longleftrightarrow> rs = []"
  by (cases rs) (auto split: list.splits)

lemma limit1_member:
  "orderBy_desc_completedAt_limit1 rs = r # rest \<Longrightarrow> r \<in> set rs \<and> rest = []"
  by (induction rs arbitrary: r rest) (auto split: list.splits if_splits)

lemma limit1_greatest:
  "orderBy_desc_completedAt_limit1 rs = r # rest \<Longrightarrow> x \<in> set rs \<Longrightarrow>
     null_le (run_completedAt x) (run_completedAt r)"
proof (induction rs arbitrary: r rest x)
  case Nil
  then show ?case by simp
next
  case (Cons a rs)
  have refl: "null_le v v" for v by (cases v) auto
  have trans: "null_le u v \<Longrightarrow> null_le v w \<Longrightarrow> null_le u w" for u v w
    by (cases u; cases v; cases w) auto
  have total: "null_le u v \<or> null_le v u" for u v
    by (cases u; cases v) auto
  show ?case
  proof (cases "orderBy_desc_completedAt_limit1 rs")
    case Nil
    then have "rs = []" by (simp add: limit1_Nil_iff)
    with Cons.prems Nil show ?thesis by (auto simp: refl)
  next
    case (Cons r' rest')
    note inner = Cons
    show ?thesis
    proof (cases "null_le (run_completedAt r') (run_completedAt a)")
      case True
      with inner Cons.prems have ra: "r = a" by simp
      show ?thesis
      proof (cases "x = a")
        case True
        with ra show ?thesis by (simp add: refl)
      next
        case False
        with Cons.prems have "x \<in> set rs" by simp
        from Cons.IH[OF inner this] True ra show ?thesis by (blast intro: trans)
      qed
    next
      case False
      with inner Cons.prems have rr: "r = r'" by simp
      show ?thesis
      proof (cases "x = a")
        case True
        with False rr total show ?thesis by blast
      next
        case False
        with Cons.prems have "x \<in> set rs" by simp
        from Cons.IH[OF inner this] rr show ?thesis by simp
      qed
    qed
  qed
qed

text \<open>
  The gate in closed form, for any ledger: it looks at the completed runs of the source
  only, and among them at the latest completion time.
\<close>

lemma canRunScraper_closed_form:
  "canRunScraper h runs now src =
     (if completion_times src runs = []
      then \<lparr>canRun = True, minutesUntilNext = 0\<rparr>
      else let e = elapsed_minutes now (Max (set (completion_times src runs)));
               r = of_int (h * 60)
           in if r \<le> e then \<lparr>canRun = True, minutesUntilNext = 0\<rparr>
              else \<lparr>canRun = False, minutesUntilNext = \<lceil>r - e\<rceil>\<rparr>)"
proof -
  let ?cs = "completed_runs_of src runs"
  let ?ts = "completion_times src runs"
  have ts_set: "set ?ts = {t. \<exists>r \<in> set ?cs. run_completedAt r = Some t}"
    by (auto simp: completion_times_def split: option.splits)
  show ?thesis
  proof (cases "orderBy_desc_completedAt_limit1 ?cs")
    case Nil
    then have "?cs = []" by (simp add: limit1_Nil_iff)
    then have "?ts = []" by (simp add: completion_times_def)
    with Nil show ?thesis by (simp add: canRunScraper_def)
  next
    case (Cons lastRun rest)
    then have mem: "lastRun \<in> set ?cs" using limit1_member by blast
    have top: "null_le (run_completedAt x) (run_completedAt lastRun)" if "x \<in> set ?cs" for x
      using limit1_greatest[OF Cons that] .
    show ?thesis
    proof (cases "run_completedAt lastRun")
      case None
      have "?ts = []"
      proof (rule ccontr)
        assume "?ts \<noteq> []"
        then obtain t where "t \<in> set ?ts" by (cases ?ts) auto
        then obtain x where "x \<in> set ?cs" "run_completedAt x = Some t"
          using ts_set by auto
        with top[of x] None show False by simp
      qed
      with Cons None show ?thesis by (simp add: canRunScraper_def)
    next
      case (Some t)
      with mem have t_in: "t \<in> set ?ts" using ts_set by auto
      then have ne: "?ts \<noteq> []" by auto
      have "t' \<le> t" if "t' \<in> set ?ts" for t'
      proof -
        from that obtain x where "x \<in> set ?cs" "run_completedAt x = Some t'"
          using ts_set by auto
        with top[of x] Some show ?thesis by simp
      qed
      with t_in have "Max (set ?ts) = t" by (intro Max_eqI) auto
      with Cons Some ne show ?thesis
        by (simp add: canRunScraper_def elapsed_minutes_def Let_def not_less)
    qed
  qed
qed

text \<open>
  C1. For every source the gate considers only the run records of that source with
  status completed: failed and running records, and records of other sources, do not
  count. If there is no such record, it allows the run with zero minutes to wait.
  Otherwise (every completed record carrying its completion time, as the ledger's
  invariant says), with \<open>e\<close> the minutes elapsed since the latest of their completion
  times and \<open>r\<close> the configured interval in minutes (120 by default), it allows the run
  when \<open>e \<ge> r\<close> and else blocks it with \<open>ceil (r - e)\<close> minutes to wait; 30 minutes
  after a completion, with the default interval, the answer is blocked, 90 minutes.
\<close>

theorem canRunScraper_cooldown:
  assumes "\<forall>r \<in> set runs. run_status r = Completed \<longrightarrow> run_completedAt r \<noteq> None"
  shows "canRunScraper h runs now src =
     (let cs = filter (\<lambda>r. run_source r = src \<and> run_status r = Completed) runs
      in if cs = []
         then \<lparr>canRun = True, minutesUntilNext = 0\<rparr>
         else let t = Max (set (map (the \<circ> run_completedAt) cs));
                  e = (of_int (now - t) / 60000 :: rat);
                  r = (of_int (h * 60) :: rat)
              in if r \<le> e then \<lparr>canRun = True, minutesUntilNext = 0\<rparr>
                 else \<lparr>canRun = False, minutesUntilNext = \<lceil>r - e\<rceil>\<rparr>)
    \<and> ((\<forall>r \<in> set runs. run_source r = src \<longrightarrow> run_status r \<noteq> Completed) \<longrightarrow>
         canRunScraper h runs now src = \<lparr>canRun = True, minutesUntilNext = 0\<rparr>)
    \<and> MIN_INTERVAL_HOURS None * 60 = 120
    \<and> (filter (\<lambda>r. run_source r = src \<and> run_status r = Completed) runs \<noteq> [] \<and>
       (of_int (now - Max (set (map (the \<circ> run_completedAt)
           (filter (\<lambda>r. run_source r = src \<and> run_status r = Completed) runs)))) / 60000 :: rat)
         = 30
       \<longrightarrow> canRunScraper (MIN_INTERVAL_HOURS None) runs now src =
             \<lparr>canRun = False, minutesUntilNext = 90\<rparr>)"
proof -
  let ?cs = "filter (\<lambda>r. run_source r = src \<and> run_status r = Completed) runs"
  have cs: "completed_runs_of src runs = ?cs" by (simp add: completed_runs_of_def)
  have all_some: "\<forall>r \<in> set ?cs. run_completedAt r \<noteq> None"
    using assms by auto
  have "concat (map (\<lambda>r. case run_completedAt r of None \<Rightarrow> [] | Some t \<Rightarrow> [t]) xs) =
          map (the \<circ> run_completedAt) xs"
    if "\<forall>r \<in> set xs. run_completedAt r \<noteq> None" for xs :: "ScraperRun list"
    using that by (induction xs) (auto split: option.splits)
  from this[OF all_some]
  have ts: "completion_times src runs = map (the \<circ> run_completedAt) ?cs"
    by (simp add: completion_times_def cs)
  have general: "canRunScraper k runs now src =
     (let cs = ?cs
      in if cs = []
         then \<lparr>canRun = True, minutesUntilNext = 0\<rparr>
         else let t = Max (set (map (the \<circ> run_completedAt) cs));
                  e = (of_int (now - t) / 60000 :: rat);
                  r = (of_int (k * 60) :: rat)
              in if r \<le> e then \<lparr>canRun = True, minutesUntilNext = 0\<rparr>
                 else \<lparr>canRun = False, minutesUntilNext = \<lceil>r - e\<rceil>\<rparr>)" for k
    using ts by (simp add: canRunScraper_closed_form elapsed_minutes_def Let_def)
  have none: "canRunScraper h runs now src = \<lparr>canRun = True, minutesUntilNext = 0\<rparr>"
    if "\<forall>r \<in> set runs. run_source r = src \<longrightarrow> run_status r \<noteq> Completed"
  proof -
    from that have "?cs = []" by (auto simp: filter_empty_conv)
    then show ?thesis by (simp add: general)
  qed
  have default: "MIN_INTERVAL_HOURS None * 60 = 120"
    by (simp add: MIN_INTERVAL_HOURS_def)
  have thirty: "canRunScraper (MIN_INTERVAL_HOURS None) runs now src =
             \<lparr>canRun = False, minutesUntilNext = 90\<rparr>"
    if "?cs \<noteq> []"
       "(of_int (now - Max (set (map (the \<circ> run_completedAt) ?cs))) / 60000 :: rat) = 30"
    using that by (simp add: general MIN_INTERVAL_HOURS_def Let_def)
  from general[of h] none default thirty show ?thesis by blast
qed

theorem canRunScraper_cooldown_witness:
  "canRunScraper (MIN_INTERVAL_HOURS None) sample_ledger 1800000 ''linkedin'' =
     \<lparr>canRun = False, minutesUntilNext = 90\<rparr> \<and>
   canRunScraper 2 sample_ledger 7200000 ''linkedin'' =
     \<lparr>canRun = True, minutesUntilNext = 0\<rparr> \<and>
   canRunScraper 2 sample_ledger 1800000 ''stepstone'' =
     \<lparr>canRun = False, minutesUntilNext = 120\<rparr> \<and>
   canRunScraper 2 sample_ledger 1800000 ''glassdoor'' =
     \<lparr>canRun = True, minutesUntilNext = 0\<rparr> \<and>
   canRunScraper 2 [sample_failed_run, sample_running_run] 1800000 ''linkedin'' =
     \<lparr>canRun = True, minutesUntilNext = 0\<rparr>"
proof -
  have inv: "\<forall>r \<in> set sample_ledger. run_status r = Completed \<longrightarrow> run_completedAt r \<noteq> None"
    by (simp add: sample_ledger_def sample_run_def sample_old_run_def sample_other_run_def
        sample_failed_run_def sample_running_run_def)
  have inv2: "\<forall>r \<in> set [sample_failed_run, sample_running_run].
      run_status r = Completed \<longrightarrow> run_completedAt r \<noteq> None"
    by (simp add: sample_failed_run_def sample_running_run_def)
  have linkedin: "filter (\<lambda>r. run_source r = ''linkedin'' \<and> run_status r = Completed) sample_ledger
      = [sample_old_run, sample_run]"
    by (simp add: sample_ledger_def sample_run_def sample_old_run_def sample_other_run_def
        sample_failed_run_def sample_running_run_def)
  have stepstone: "filter (\<lambda>r. run_source r = ''stepstone'' \<and> run_status r = Completed) sample_ledger
      = [sample_other_run]"
    by (simp add: sample_ledger_def sample_run_def sample_old_run_def sample_other_run_def
        sample_failed_run_def sample_running_run_def)
  have glassdoor: "filter (\<lambda>r. run_source r = ''glassdoor'' \<and> run_status r = Completed) sample_ledger
      = []"
    by (simp add: sample_ledger_def sample_run_def sample_old_run_def sample_other_run_def
        sample_failed_run_def sample_running_run_def)
  have unfinished: "\<forall>r \<in> set [sample_failed_run, sample_running_run].
      run_source r = ''linkedin'' \<longrightarrow> run_status r \<noteq> Completed"
    by (simp add: sample_failed_run_def sample_running_run_def)
  have latest: "Max (set (map (the \<circ> run_completedAt) [sample_old_run, sample_run])) = 0"
    by (simp add: sample_run_def sample_old_run_def)
  have latest2: "Max (set (map (the \<circ> run_completedAt) [sample_other_run])) = 1790000"
    by (simp add: sample_other_run_def)
  note a = canRunScraper_cooldown[OF inv, of "MIN_INTERVAL_HOURS None" 1800000 "''linkedin''"]
  note b = canRunScraper_cooldown[OF inv, of 2 7200000 "''linkedin''"]
  note c = canRunScraper_cooldown[OF inv, of 2 1800000 "''stepstone''"]
  note d = canRunScraper_cooldown[OF inv, of 2 1800000 "''glassdoor''"]
  note e = canRunScraper_cooldown[OF inv2, of 2 1800000 "''linkedin''"]
  have "canRunScraper (MIN_INTERVAL_HOURS None) sample_ledger 1800000 ''linkedin'' =
     \<lparr>canRun = False, minutesUntilNext = 90\<rparr>"
    using a[THEN conjunct2, THEN conjunct2, THEN conjunct2] unfolding linkedin latest by simp
  moreover have "canRunScraper 2 sample_ledger 7200000 ''linkedin'' =
     \<lparr>canRun = True, minutesUntilNext = 0\<rparr>"
    using b[THEN conjunct1] unfolding linkedin Let_def latest by simp
  moreover have "canRunScraper 2 sample_ledger 1800000 ''stepstone'' =
     \<lparr>canRun = False, minutesUntilNext = 120\<rparr>"
  proof -
    have up: "\<lceil>719 / 6 :: rat\<rceil> = 120" by (rule ceiling_unique) simp_all
    from c[THEN conjunct1] show ?thesis unfolding stepstone Let_def latest2 by (simp add: up)
  qed
  moreover have "canRunScraper 2 sample_ledger 1800000 ''glassdoor'' =
     \<lparr>canRun = True, minutesUntilNext = 0\<rparr>"
    using d[THEN conjunct1] unfolding glassdoor Let_def by simp
  moreover have "canRunScraper 2 [sample_failed_run, sample_running_run] 1800000 ''linkedin'' =
     \<lparr>canRun = True, minutesUntilNext = 0\<rparr>"
    using e unfinished by blast
  ultimately show ?thesis by blast
qed

section \<open>Properties of the ingestion\<close>

lemma map_url_mark_not_new: "map url (mark_not_new src tbl) = map url tbl"
  by (induction tbl) (auto simp: mark_not_new_def)

lemma length_mark_not_new: "length (mark_not_new src tbl) = length tbl"
  by (simp add: mark_not_new_def)

lemma map_url_touch_url: "map url (touch_url t u tbl) = map url tbl"
  by (induction tbl) (auto simp: touch_url_def)

lemma length_touch_url: "length (touch_url t u tbl) = length tbl"
  by (simp add: touch_url_def)

lemma upsert_one_existing:
  "sj_url sj \<in> url ` set tbl \<Longrightarrow>
     upsert_one t sj (tbl, n) = (touch_url t (sj_url sj) tbl, n)"
proof -
  assume "sj_url sj \<in> url ` set tbl"
  then have "filter (\<lambda>j. url j = sj_url sj) tbl \<noteq> []"
    by (auto simp: filter_empty_conv)
  then show ?thesis
    by (cases "filter (\<lambda>j. url j = sj_url sj) tbl") (simp_all add: upsert_one_def)
qed

lemma upsert_one_new:
  "sj_url sj \<notin> url ` set tbl \<Longrightarrow>
     upsert_one t sj (tbl, n) = (tbl @ [new_job t sj (next_id (map job_id tbl))], Suc n)"
proof -
  assume a: "sj_url sj \<notin> url ` set tbl"
  then have none: "\<forall>j \<in> set tbl. url j \<noteq> sj_url sj"
    by force
  then have "filter (\<lambda>j. url j = sj_url sj) tbl = []"
    by (simp add: filter_empty_conv)
  moreover have "url (new_job t sj k) = sj_url sj" for k
    by (simp add: new_job_def)
  ultimately show ?thesis using none
    by (simp add: upsert_one_def insert_job_def Let_def)
qed

lemma url_new_job: "url (new_job t sj k) = sj_url sj"
  by (simp add: new_job_def)

lemma urls_upsert_one:
  "map url (fst (upsert_one t sj (tbl, n))) =
     (if sj_url sj \<in> url ` set tbl then map url tbl else map url tbl @ [sj_url sj])"
  by (simp add: upsert_one_existing upsert_one_new map_url_touch_url url_new_job)

lemma distinct_upsert_one:
  "distinct (map url tbl) \<Longrightarrow> distinct (map url (fst (upsert_one t sj (tbl, n))))"
  by (auto simp: urls_upsert_one)

lemma distinct_upsert_loop:
  "distinct (map url (fst st)) \<Longrightarrow> distinct (map url (fst (upsert_loop clk i rs st)))"
proof (induction rs arbitrary: st i)
  case Nil
  then show ?case by simp
next
  case (Cons sj rs)
  obtain tbl n where st: "st = (tbl, n)" by (cases st)
  with Cons.prems have "distinct (map url (fst (upsert_one (clk i) sj st)))"
    by (simp add: distinct_upsert_one)
  from Cons.IH[OF this] show ?case by simp
qed

lemma urls_upsert_loop:
  "url ` set (fst (upsert_loop clk i rs st)) = url ` set (fst st) \<union> sj_url ` set rs"
proof (induction rs arbitrary: st i)
  case Nil
  then show ?case by simp
next
  case (Cons sj rs)
  obtain tbl n where st: "st = (tbl, n)" by (cases st)
  have "url ` set (fst (upsert_one (clk i) sj st)) = insert (sj_url sj) (url ` set tbl)"
    using urls_upsert_one[of "clk i" sj tbl n] st
    by (metis (no_types, lifting) insert_absorb list.set_map set_append list.simps(15)
        Un_insert_right sup_bot.right_neutral empty_set)
  with Cons.IH[of "Suc i" "upsert_one (clk i) sj st"] st show ?case by auto
qed

lemma nth_upsert_one_other:
  "k < length tbl \<Longrightarrow> url (tbl ! k) \<noteq> sj_url sj \<Longrightarrow>
     fst (upsert_one t sj (tbl, n)) ! k = tbl ! k"
  by (cases "sj_url sj \<in> url ` set tbl")
     (simp_all add: upsert_one_existing upsert_one_new touch_url_def nth_append)

lemma length_upsert_one: "length tbl \<le> length (fst (upsert_one t sj (tbl, n)))"
  by (cases "sj_url sj \<in> url ` set tbl")
     (simp_all add: upsert_one_existing upsert_one_new length_touch_url)

lemma nth_upsert_loop_other:
  "k < length (fst st) \<Longrightarrow> url (fst st ! k) \<notin> sj_url ` set rs \<Longrightarrow>
     fst (upsert_loop clk i rs st) ! k = fst st ! k"
proof (induction rs arbitrary: st i)
  case Nil
  then show ?case by simp
next
  case (Cons sj rs)
  obtain tbl n where st: "st = (tbl, n)" by (cases st)
  let ?st' = "upsert_one (clk i) sj st"
  from Cons.prems st have same: "fst ?st' ! k = tbl ! k"
    by (simp add: nth_upsert_one_other)
  from Cons.prems st have len: "k < length (fst ?st')"
    using length_upsert_one[of tbl "clk i" sj n] by simp
  from Cons.prems st same have "url (fst ?st' ! k) \<notin> sj_url ` set rs" by simp
  from Cons.IH[OF len this] same st show ?case by simp
qed

lemma count_url_distinct:
  "distinct (map f xs) \<Longrightarrow> u \<in> f ` set xs \<Longrightarrow> length (filter (\<lambda>j. f j = u) xs) = 1"
proof (induction xs)
  case Nil
  then show ?case by simp
next
  case (Cons x xs)
  show ?case
  proof (cases "f x = u")
    case True
    from Cons.prems(1) have "f x \<notin> f ` set xs" by simp
    with True have "\<forall>j \<in> set xs. f j \<noteq> u" by (metis imageI)
    then have "filter (\<lambda>j. f j = u) xs = []" by (simp add: filter_empty_conv)
    with True show ?thesis by simp
  next
    case False
    with Cons show ?thesis by auto
  qed
qed

lemma not_new_upsert_one:
  "k < length tbl \<Longrightarrow> \<not> isNewInLastHour (tbl ! k) \<Longrightarrow>
     \<not> isNewInLastHour (fst (upsert_one t sj (tbl, n)) ! k)"
  by (cases "sj_url sj \<in> url ` set tbl")
     (simp_all add: upsert_one_existing upsert_one_new touch_url_def nth_append)

lemma not_new_upsert_loop:
  "k < length (fst st) \<Longrightarrow> \<not> isNewInLastHour (fst st ! k) \<Longrightarrow>
     k < length (fst (upsert_loop clk i rs st)) \<and>
     \<not> isNewInLastHour (fst (upsert_loop clk i rs st) ! k)"
proof (induction rs arbitrary: st i)
  case Nil
  then show ?case by simp
next
  case (Cons sj rs)
  obtain tbl n where st: "st = (tbl, n)" by (cases st)
  let ?st' = "upsert_one (clk i) sj st"
  from Cons.prems st have len: "k < length (fst ?st')"
    using length_upsert_one[of tbl "clk i" sj n] by simp
  from Cons.prems st have "\<not> isNewInLastHour (fst ?st' ! k)"
    by (simp add: not_new_upsert_one)
  from Cons.IH[OF len this] show ?case by simp
qed

lemma fst_upsertJobs:
  "fst (upsertJobs clk result src tbl) =
     fst (upsert_loop clk 0 (jobs result) (mark_not_new src tbl, 0))"
  by (simp add: upsertJobs_def split: prod.splits)

lemma snd_upsertJobs:
  "snd (upsertJobs clk result src tbl) =
     \<lparr>totalJobs = length (jobs result),
      newJobs = snd (upsert_loop clk 0 (jobs result) (mark_not_new src tbl, 0))\<rparr>"
  by (simp add: upsertJobs_def split: prod.splits)

text \<open>
  Records whose URLs are all stored: nothing is counted as new, and the rows they name
  end up stale.
\<close>

lemma revisit_loop:
  "sj_url ` set rs \<subseteq> url ` set tbl \<Longrightarrow>
   (\<forall>j \<in> set tbl. url j \<in> S \<longrightarrow> \<not> isNewInLastHour j) \<Longrightarrow>
     snd (upsert_loop clk i rs (tbl, n)) = n \<and>
     (\<forall>j \<in> set (fst (upsert_loop clk i rs (tbl, n))).
        url j \<in> S \<union> sj_url ` set rs \<longrightarrow> \<not> isNewInLastHour j)"
proof (induction rs arbitrary: tbl i S)
  case Nil
  then show ?case by simp
next
  case (Cons sj rs)
  let ?u = "sj_url sj"
  let ?tbl' = "touch_url (clk i) ?u tbl"
  from Cons.prems have ex: "?u \<in> url ` set tbl" by simp
  then have step: "upsert_one (clk i) sj (tbl, n) = (?tbl', n)"
    by (rule upsert_one_existing)
  have urls: "url ` set ?tbl' = url ` set tbl"
    using map_url_touch_url[of "clk i" ?u tbl] by (metis list.set_map)
  with Cons.prems have sub: "sj_url ` set rs \<subseteq> url ` set ?tbl'" by simp
  have stale: "\<forall>j \<in> set ?tbl'. url j \<in> insert ?u S \<longrightarrow> \<not> isNewInLastHour j"
    using Cons.prems(2) by (auto simp: touch_url_def)
  from Cons.IH[OF sub stale, of "Suc i"] step show ?case by auto
qed

text \<open>
  C2, as the claim states it, fails. A record whose URL is stored does not leave the row's
  freshness alone: the update writes \<open>isNewInLastHour: false\<close> together with the two
  timestamps. In a cycle for \<open>all\<close> the clearing step matches no row of a concrete
  source, so the fresh row of \<open>linkedin\<close> below is fresh when its record arrives, and
  stale afterwards.
\<close>

theorem revisit_changes_freshness_counterexample:
  "url sample_job = sj_url sample_scraped \<and> isNewInLastHour sample_job \<and>
   fst (upsertJobs sample_clk (sample_result [sample_scraped]) ''all'' [sample_job]) =
     [sample_job\<lparr>lastSeen := 5, isNewInLastHour := False, updatedAt := 5\<rparr>] \<and>
   fst (upsertJobs sample_clk (sample_result [sample_scraped]) ''all'' [sample_job]) \<noteq>
     [sample_job\<lparr>lastSeen := 5, updatedAt := 5\<rparr>]"
  by (simp add: upsertJobs_def upsert_one_def mark_not_new_def touch_url_def sample_job_def
      sample_scraped_def sample_result_def sample_clk_def)

text \<open>
  C2, amended. For every incoming record the lookup is by URL. If a stored row has that
  URL, the turn sets its last-seen and updated times to now and its freshness to false,
  changes nothing else and creates no row: the rows with that URL are one before and one
  after. If none has it, one row is appended with freshness true, first and last seen
  now, and the role slug \<open>other\<close> when the record supplies none, and the count of
  new rows grows by one. Either way, and over the whole call, URLs stay unique.
\<close>

theorem upsert_by_url:
  assumes "distinct (map url tbl)"
  shows "(sj_url sj \<in> url ` set tbl \<longrightarrow>
            upsert_one t sj (tbl, n) =
              (map (\<lambda>j. if url j = sj_url sj
                        then j\<lparr>lastSeen := t, isNewInLastHour := False, updatedAt := t\<rparr>
                        else j) tbl, n) \<and>
            length (filter (\<lambda>j. url j = sj_url sj) tbl) = 1 \<and>
            length (filter (\<lambda>j. url j = sj_url sj) (fst (upsert_one t sj (tbl, n)))) = 1)
       \<and> (sj_url sj \<notin> url ` set tbl \<longrightarrow>
            (\<exists>j. upsert_one t sj (tbl, n) = (tbl @ [j], n + 1) \<and>
                 url j = sj_url sj \<and> isNewInLastHour j \<and> firstSeen j = t \<and> lastSeen j = t \<and>
                 roleSlug j = Some (if sj_role_slug sj = [] then ''other'' else sj_role_slug sj)))
       \<and> distinct (map url (fst (upsert_one t sj (tbl, n))))
       \<and> distinct (map url (fst (upsertJobs clk result src tbl)))"
proof -
  have found: "upsert_one t sj (tbl, n) =
              (map (\<lambda>j. if url j = sj_url sj
                        then j\<lparr>lastSeen := t, isNewInLastHour := False, updatedAt := t\<rparr>
                        else j) tbl, n) \<and>
            length (filter (\<lambda>j. url j = sj_url sj) tbl) = 1 \<and>
            length (filter (\<lambda>j. url j = sj_url sj) (fst (upsert_one t sj (tbl, n)))) = 1"
    if ex: "sj_url sj \<in> url ` set tbl"
  proof -
    have step: "upsert_one t sj (tbl, n) = (touch_url t (sj_url sj) tbl, n)"
      using ex by (rule upsert_one_existing)
    have before: "length (filter (\<lambda>j. url j = sj_url sj) tbl) = 1"
      using assms ex by (rule count_url_distinct)
    have "distinct (map url (touch_url t (sj_url sj) tbl))"
      using assms by (simp add: map_url_touch_url)
    moreover have "sj_url sj \<in> url ` set (touch_url t (sj_url sj) tbl)"
      using ex map_url_touch_url[of t "sj_url sj" tbl] by (metis list.set_map)
    ultimately have "length (filter (\<lambda>j. url j = sj_url sj) (touch_url t (sj_url sj) tbl)) = 1"
      by (rule count_url_distinct)
    with step before show ?thesis by (simp add: touch_url_def)
  qed
  have fresh: "\<exists>j. upsert_one t sj (tbl, n) = (tbl @ [j], n + 1) \<and>
                 url j = sj_url sj \<and> isNewInLastHour j \<and> firstSeen j = t \<and> lastSeen j = t \<and>
                 roleSlug j = Some (if sj_role_slug sj = [] then ''other'' else sj_role_slug sj)"
    if "sj_url sj \<notin> url ` set tbl"
    using upsert_one_new[OF that, of t n] by (simp add: new_job_def or_default_def)
  have one: "distinct (map url (fst (upsert_one t sj (tbl, n))))"
    using assms by (rule distinct_upsert_one)
  have "distinct (map url (fst (mark_not_new src tbl, 0::nat)))"
    using assms by (simp add: map_url_mark_not_new)
  then have "distinct (map url (fst (upsert_loop clk 0 (jobs result) (mark_not_new src tbl, 0))))"
    by (rule distinct_upsert_loop)
  then have all: "distinct (map url (fst (upsertJobs clk result src tbl)))"
    by (simp add: fst_upsertJobs)
  from found fresh one all show ?thesis by blast
qed

theorem upsert_by_url_witness:
  "distinct (map url [sample_job]) \<and>
   sj_url sample_scraped \<in> url ` set [sample_job] \<and>
   upsert_one 5 sample_scraped ([sample_job], 0) =
     (map (\<lambda>j. if url j = sj_url sample_scraped
               then j\<lparr>lastSeen := 5, isNewInLastHour := False, updatedAt := 5\<rparr>
               else j) [sample_job], 0) \<and>
   length (filter (\<lambda>j. url j = sj_url sample_scraped) [sample_job]) = 1 \<and>
   sj_url sample_scraped2 \<notin> url ` set [sample_job] \<and>
   (\<exists>j. upsert_one 5 sample_scraped2 ([sample_job], 0) = ([sample_job] @ [j], 0 + 1) \<and>
        isNewInLastHour j \<and> firstSeen j = 5 \<and> lastSeen j = 5) \<and>
   distinct (map url (fst (upsertJobs sample_clk (sample_result [sample_scraped2]) ''all''
                             [sample_job])))"
proof -
  have d: "distinct (map url [sample_job])" by simp
  have old: "sj_url sample_scraped \<in> url ` set [sample_job]"
    by (simp add: sample_job_def sample_scraped_def)
  have new: "sj_url sample_scraped2 \<notin> url ` set [sample_job]"
    by (simp add: sample_job_def sample_scraped2_def)
  note first = upsert_by_url[OF d, where sj = sample_scraped and t = 5 and n = 0
      and clk = sample_clk and result = "sample_result [sample_scraped2]" and src = "''all''"]
  note second = upsert_by_url[OF d, where sj = sample_scraped2 and t = 5 and n = 0
      and clk = sample_clk and result = "sample_result [sample_scraped2]" and src = "''all''"]
  from first old have "upsert_one 5 sample_scraped ([sample_job], 0) =
     (map (\<lambda>j. if url j = sj_url sample_scraped
               then j\<lparr>lastSeen := 5, isNewInLastHour := False, updatedAt := 5\<rparr>
               else j) [sample_job], 0) \<and>
   length (filter (\<lambda>j. url j = sj_url sample_scraped) [sample_job]) = 1"
    by blast
  moreover from second new
  have "\<exists>j. upsert_one 5 sample_scraped2 ([sample_job], 0) = ([sample_job] @ [j], 0 + 1) \<and>
        isNewInLastHour j \<and> firstSeen j = 5 \<and> lastSeen j = 5"
    by blast
  moreover from second
  have "distinct (map url (fst (upsertJobs sample_clk (sample_result [sample_scraped2]) ''all''
                             [sample_job])))"
    by blast
  ultimately show ?thesis using d old new by blast
qed

text \<open>
  C3. The call first clears the freshness of every stored row whose source matches, and
  only then runs the loop over the records. So whatever the records are, every row that
  was stored with that source is stale after the call; and when there are no records,
  the table is the cleared one and the call reports no rows seen and none new.
\<close>

theorem upsertJobs_clears_freshness_first:
  "fst (upsertJobs clk result src tbl) =
     fst (upsert_loop clk 0 (jobs result)
            (map (\<lambda>j. if source j = src then j\<lparr>isNewInLastHour := False\<rparr> else j) tbl, 0))
   \<and> (\<forall>k < length tbl. source (tbl ! k) = src \<longrightarrow>
         k < length (fst (upsertJobs clk result src tbl)) \<and>
         \<not> isNewInLastHour (fst (upsertJobs clk result src tbl) ! k))
   \<and> (jobs result = [] \<longrightarrow>
         upsertJobs clk result src tbl =
           (map (\<lambda>j. if source j = src then j\<lparr>isNewInLastHour := False\<rparr> else j) tbl,
            \<lparr>totalJobs = 0, newJobs = 0\<rparr>))"
proof -
  have order: "fst (upsertJobs clk result src tbl) =
     fst (upsert_loop clk 0 (jobs result)
            (map (\<lambda>j. if source j = src then j\<lparr>isNewInLastHour := False\<rparr> else j) tbl, 0))"
    by (simp add: fst_upsertJobs mark_not_new_def)
  have stale: "k < length (fst (upsertJobs clk result src tbl)) \<and>
         \<not> isNewInLastHour (fst (upsertJobs clk result src tbl) ! k)"
    if "k < length tbl" "source (tbl ! k) = src" for k
  proof -
    let ?st = "(mark_not_new src tbl, 0::nat)"
    from that have "k < length (fst ?st)" "\<not> isNewInLastHour (fst ?st ! k)"
      by (simp_all add: mark_not_new_def)
    from not_new_upsert_loop[OF this] show ?thesis by (simp add: fst_upsertJobs)
  qed
  have empty: "upsertJobs clk result src tbl =
           (map (\<lambda>j. if source j = src then j\<lparr>isNewInLastHour := False\<rparr> else j) tbl,
            \<lparr>totalJobs = 0, newJobs = 0\<rparr>)" if "jobs result = []"
    using that by (simp add: upsertJobs_def mark_not_new_def)
  from order stale empty show ?thesis by blast
qed

theorem upsertJobs_clears_freshness_first_witness:
  "0 < length [sample_job] \<and> source ([sample_job] ! 0) = ''linkedin'' \<and>
   isNewInLastHour ([sample_job] ! 0) \<and> jobs (sample_result []) = [] \<and>
   upsertJobs sample_clk (sample_result []) ''linkedin'' [sample_job] =
     (map (\<lambda>j. if source j = ''linkedin'' then j\<lparr>isNewInLastHour := False\<rparr> else j)
          [sample_job],
      \<lparr>totalJobs = 0, newJobs = 0\<rparr>) \<and>
   \<not> isNewInLastHour
       (fst (upsertJobs sample_clk (sample_result [sample_scraped2]) ''linkedin'' [sample_job]) ! 0)"
proof -
  have len: "0 < length [sample_job]" by simp
  have src: "source ([sample_job] ! 0) = ''linkedin''" by (simp add: sample_job_def)
  have new: "isNewInLastHour ([sample_job] ! 0)" by (simp add: sample_job_def)
  have none: "jobs (sample_result []) = []" by (simp add: sample_result_def)
  note empty = upsertJobs_clears_freshness_first[where clk = sample_clk
      and result = "sample_result []" and src = "''linkedin''" and tbl = "[sample_job]"]
  note some = upsertJobs_clears_freshness_first[where clk = sample_clk
      and result = "sample_result [sample_scraped2]" and src = "''linkedin''"
      and tbl = "[sample_job]"]
  from empty none
  have "upsertJobs sample_clk (sample_result []) ''linkedin'' [sample_job] =
     (map (\<lambda>j. if source j = ''linkedin'' then j\<lparr>isNewInLastHour := False\<rparr> else j)
          [sample_job],
      \<lparr>totalJobs = 0, newJobs = 0\<rparr>)"
    by blast
  moreover from some len src
  have "\<not> isNewInLastHour
       (fst (upsertJobs sample_clk (sample_result [sample_scraped2]) ''linkedin'' [sample_job]) ! 0)"
    by blast
  ultimately show ?thesis using len src new none by blast
qed

text \<open>
  C4. Running the call twice in a row with the same record set: the second call counts
  no new row, and after it every row whose URL is among the records is stale.
\<close>

theorem upsertJobs_twice:
  "newJobs (snd (upsertJobs clk2 result src (fst (upsertJobs clk1 result src tbl)))) = 0
   \<and> (\<forall>j \<in> set (fst (upsertJobs clk2 result src (fst (upsertJobs clk1 result src tbl)))).
         url j \<in> sj_url ` set (jobs result) \<longrightarrow> \<not> isNewInLastHour j)"
proof -
  let ?tbl1 = "fst (upsertJobs clk1 result src tbl)"
  have "url ` set ?tbl1 = url ` set (mark_not_new src tbl) \<union> sj_url ` set (jobs result)"
    using urls_upsert_loop[of clk1 0 "jobs result" "(mark_not_new src tbl, 0)"]
    by (simp add: fst_upsertJobs)
  then have "sj_url ` set (jobs result) \<subseteq> url ` set ?tbl1" by blast
  moreover have "url ` set (mark_not_new src ?tbl1) = url ` set ?tbl1"
    using map_url_mark_not_new[of src ?tbl1] by (metis list.set_map)
  ultimately have sub: "sj_url ` set (jobs result) \<subseteq> url ` set (mark_not_new src ?tbl1)"
    by simp
  have none: "\<forall>j \<in> set (mark_not_new src ?tbl1). url j \<in> {} \<longrightarrow> \<not> isNewInLastHour j"
    by simp
  from revisit_loop[OF sub none, of clk2 0 0] show ?thesis
    by (simp add: fst_upsertJobs snd_upsertJobs)
qed

lemma twice_tbl_value:
  "twice_tbl = [new_job 5 sample_scraped 1\<lparr>lastSeen := 5, isNewInLastHour := False, updatedAt := 5\<rparr>]"
  by (simp add: twice_tbl_def upsertJobs_def upsert_one_def insert_job_def mark_not_new_def
      touch_url_def sample_result_def sample_clk_def next_id_def new_job_def)

theorem upsertJobs_twice_witness:
  "newJobs (snd (upsertJobs sample_clk (sample_result [sample_scraped]) ''linkedin'' [])) = 1 \<and>
   newJobs (snd (upsertJobs sample_clk (sample_result [sample_scraped]) ''linkedin''
     (fst (upsertJobs sample_clk (sample_result [sample_scraped]) ''linkedin'' [])))) = 0 \<and>
   \<not> isNewInLastHour (hd (fst (upsertJobs sample_clk (sample_result [sample_scraped]) ''linkedin''
     (fst (upsertJobs sample_clk (sample_result [sample_scraped]) ''linkedin'' [])))))"
proof -
  have first: "newJobs (snd (upsertJobs sample_clk (sample_result [sample_scraped]) ''linkedin'' [])) = 1"
    by (simp add: upsertJobs_def upsert_one_def insert_job_def mark_not_new_def sample_result_def)
  have recs: "sj_url ` set (jobs (sample_result [sample_scraped])) = {sj_url sample_scraped}"
    by (simp add: sample_result_def)
  have mem: "hd twice_tbl \<in> set twice_tbl" and u: "url (hd twice_tbl) = sj_url sample_scraped"
    by (simp_all add: twice_tbl_value new_job_def)
  note twice = upsertJobs_twice[where ?clk1.0 = sample_clk and ?clk2.0 = sample_clk
      and result = "sample_result [sample_scraped]" and src = "''linkedin''" and tbl = "[]"]
  from twice recs mem u have "\<not> isNewInLastHour (hd twice_tbl)"
    unfolding twice_tbl_def by blast
  with twice first show ?thesis unfolding twice_tbl_def by blast
qed

section \<open>Properties of the invoker\<close>

lemma settled_sticky:
  "settled st \<noteq> Pending \<Longrightarrow> settled (handle_events P es st) = settled st"
proof (induction es arbitrary: st)
  case Nil
  then show ?case by simp
next
  case (Cons e es)
  have "settled (handle_event P e st) = settled st"
    using Cons.prems by (cases e) (simp_all add: settle_def)
  with Cons show ?case by simp
qed

lemma handle_data_events:
  "\<forall>e \<in> set ds. is_data e \<Longrightarrow>
     handle_events P ds st =
       st\<lparr>stdoutData := stdoutData st @ stdout_of ds, stderrData := stderrData st @ stderr_of ds\<rparr>"
proof (induction ds arbitrary: st)
  case Nil
  then show ?case by (simp add: stdout_of_def stderr_of_def)
next
  case (Cons e ds)
  then show ?case
    by (cases e) (simp_all add: is_data_def stdout_of_def stderr_of_def)
qed

lemma handle_events_append:
  "handle_events P (xs @ ys) st = handle_events P ys (handle_events P xs st)"
  by (induction xs arbitrary: st) simp_all

lemma on_close_settles: "on_close P c out err \<noteq> Pending"
  by (simp add: on_close_def split: option.splits)

lemma runPythonScraper_close:
  assumes "\<forall>e \<in> set ds. is_data e"
  shows "runPythonScraper P (ds @ Close c # rest) = on_close P c (stdout_of ds) (stderr_of ds)"
proof -
  let ?st0 = "\<lparr>stdoutData = [], stderrData = [], settled = Pending\<rparr>"
  let ?st1 = "handle_events P ds ?st0"
  have st1: "?st1 = \<lparr>stdoutData = stdout_of ds, stderrData = stderr_of ds, settled = Pending\<rparr>"
    by (simp add: handle_data_events[OF assms])
  let ?st2 = "handle_event P (Close c) ?st1"
  have st2: "settled ?st2 = on_close P c (stdout_of ds) (stderr_of ds)"
    by (simp add: st1 settle_def)
  then have "settled ?st2 \<noteq> Pending" by (simp add: on_close_settles)
  from settled_sticky[OF this] st2 show ?thesis
    by (simp add: runPythonScraper_def handle_events_append)
qed

lemma runPythonScraper_error:
  assumes "\<forall>e \<in> set ds. is_data e"
  shows "runPythonScraper P (ds @ ProcError msg # rest) = Rejected msg"
proof -
  let ?st0 = "\<lparr>stdoutData = [], stderrData = [], settled = Pending\<rparr>"
  let ?st1 = "handle_events P ds ?st0"
  have st1: "?st1 = \<lparr>stdoutData = stdout_of ds, stderrData = stderr_of ds, settled = Pending\<rparr>"
    by (simp add: handle_data_events[OF assms])
  let ?st2 = "handle_event P (ProcError msg) ?st1"
  have st2: "settled ?st2 = Rejected msg"
    by (simp add: st1 settle_def)
  then have "settled ?st2 \<noteq> Pending" by simp
  from settled_sticky[OF this] st2 show ?thesis
    by (simp add: runPythonScraper_def handle_events_append)
qed

lemma runPythonScraper_pending_iff:
  "runPythonScraper P events = Pending \<longleftrightarrow> (\<forall>e \<in> set events. is_data e)"
proof
  assume "\<forall>e \<in> set events. is_data e"
  then show "runPythonScraper P events = Pending"
    by (simp add: runPythonScraper_def handle_data_events)
next
  assume pend: "runPythonScraper P events = Pending"
  show "\<forall>e \<in> set events. is_data e"
  proof (rule ccontr)
    assume "\<not> (\<forall>e \<in> set events. is_data e)"
    then obtain ds e rest where split: "events = ds @ e # rest"
      and ds: "\<forall>x \<in> set ds. is_data x" and e: "\<not> is_data e"
      using split_list_first_prop[of events "\<lambda>e. \<not> is_data e"] by auto
    show False
    proof (cases e)
      case (Close c)
      with split ds pend on_close_settles[of P c] show False
        by (simp add: runPythonScraper_close)
    next
      case (ProcError msg)
      with split ds pend show False by (simp add: runPythonScraper_error)
    qed (use e in \<open>simp_all add: is_data_def\<close>)
  qed
qed

lemma sample_ok_resolved:
  "runPythonScraper sample_JSON_parse (sample_proc_ok kw src) = Resolved (sample_result [sample_scraped2])"
  by (simp add: runPythonScraper_def sample_proc_ok_def settle_def on_close_def
      sample_JSON_parse_def sample_result_def blocked_doc_def ok_doc_def)

lemma sample_blocked_rejected:
  "runPythonScraper sample_JSON_parse (sample_proc_blocked kw src) = Rejected ''blocked''"
  by (simp add: runPythonScraper_def sample_proc_blocked_def settle_def on_close_def
      sample_JSON_parse_def or_default_def)

section \<open>Properties of the coordinator\<close>

lemma fold_max_ge: "a \<le> fold max xs (a::nat)"
  by (induction xs arbitrary: a) (auto intro: order_trans[OF max.cobounded2])

lemma fold_max_mem: "x \<in> set xs \<Longrightarrow> x \<le> fold max xs (a::nat)"
proof (induction xs arbitrary: a)
  case Nil
  then show ?case by simp
next
  case (Cons y ys)
  show ?case
  proof (cases "x = y")
    case True
    have "y \<le> max y a" by simp
    also have "\<dots> \<le> fold max ys (max y a)" by (rule fold_max_ge)
    finally show ?thesis using True by simp
  next
    case False
    with Cons show ?thesis by simp
  qed
qed

lemma next_id_fresh: "x \<in> set ids \<Longrightarrow> x < next_id ids"
  by (simp add: next_id_def fold_max_mem less_Suc_eq_le)

lemma update_run_append_fresh:
  "\<forall>r \<in> set runs. run_id r \<noteq> run_id r0 \<Longrightarrow>
     update_run (run_id r0) f (runs @ [r0]) = runs @ [f r0]"
  by (induction runs) (auto simp: update_run_def)

lemma insert_run_shape:
  "insert_run runs src t d = (r, runs1) \<Longrightarrow>
     runs1 = runs @ [r] \<and> run_id r = next_id (map run_id runs) \<and> run_source r = src \<and>
     run_status r = Running \<and> run_completedAt r = None \<and> run_startedAt r = t \<and>
     run_error r = None \<and> (\<forall>x \<in> set runs. run_id x \<noteq> run_id r)"
proof -
  assume a: "insert_run runs src t d = (r, runs1)"
  then have id: "run_id r = next_id (map run_id runs)"
    by (auto simp: insert_run_def Let_def)
  have "run_id x \<noteq> run_id r" if "x \<in> set runs" for x
  proof -
    from that have "run_id x \<in> set (map run_id runs)" by simp
    from next_id_fresh[OF this] id show ?thesis by simp
  qed
  with a show ?thesis by (auto simp: insert_run_def Let_def)
qed

lemma wf_blocked:
  "first_blocked h (scraperRuns_tbl w) (check_time clk) (sources_of src) = Some (b, m) \<Longrightarrow>
   runScraperWorkflow P h clk proc src kw man w =
     (Some \<lparr>wf_success = False,
            message = ''Must wait '' @ show_int m @ '' more minutes before running ''
                      @ b @ '' scraper'',
            stats = None\<rparr>, w)"
  by (simp add: runScraperWorkflow_def)

lemma wf_pending:
  assumes "first_blocked h (scraperRuns_tbl w) (check_time clk) (sources_of src) = None"
      and "runPythonScraper P (proc kw src) = Pending"
  shows "runScraperWorkflow P h clk proc src kw man w =
     (None, w\<lparr>scraperRuns_tbl := scraperRuns_tbl w @ [runRecord_of clk src w],
              spawned := spawned w @ [(kw, src)]\<rparr>)"
proof -
  obtain r runs1 where ins: "insert_run (scraperRuns_tbl w) src (start_time clk) (db_time clk) = (r, runs1)"
    by (cases "insert_run (scraperRuns_tbl w) src (start_time clk) (db_time clk)")
  from insert_run_shape[OF ins] have "runs1 = scraperRuns_tbl w @ [r]" by simp
  moreover from ins have "runRecord_of clk src w = r" by (simp add: runRecord_of_def)
  ultimately show ?thesis using assms ins
    by (simp add: runScraperWorkflow_def Let_def)
qed

lemma wf_rejected:
  assumes "first_blocked h (scraperRuns_tbl w) (check_time clk) (sources_of src) = None"
      and "runPythonScraper P (proc kw src) = Rejected e"
  shows "runScraperWorkflow P h clk proc src kw man w =
     (Some \<lparr>wf_success = False, message = ''Scraper failed: '' @ e, stats = None\<rparr>,
      w\<lparr>scraperRuns_tbl :=
           scraperRuns_tbl w @ [close_failed (close_time clk) e (runRecord_of clk src w)],
        spawned := spawned w @ [(kw, src)]\<rparr>)"
proof -
  obtain r runs1 where ins: "insert_run (scraperRuns_tbl w) src (start_time clk) (db_time clk) = (r, runs1)"
    by (cases "insert_run (scraperRuns_tbl w) src (start_time clk) (db_time clk)")
  from insert_run_shape[OF ins]
  have r1: "runs1 = scraperRuns_tbl w @ [r]"
    and fresh: "\<forall>x \<in> set (scraperRuns_tbl w). run_id x \<noteq> run_id r"
    by blast+
  have upd: "update_run (run_id r) f runs1 = scraperRuns_tbl w @ [f r]" for f
    unfolding r1 by (rule update_run_append_fresh[OF fresh])
  from ins have "runRecord_of clk src w = r" by (simp add: runRecord_of_def)
  then show ?thesis using assms ins upd
    by (simp add: runScraperWorkflow_def Let_def)
qed

lemma wf_resolved:
  assumes "first_blocked h (scraperRuns_tbl w) (check_time clk) (sources_of src) = None"
      and "runPythonScraper P (proc kw src) = Resolved result"
  shows "runScraperWorkflow P h clk proc src kw man w =
     (Some \<lparr>wf_success = True, message = ''Scraper completed successfully'',
            stats = Some (snd (upsertJobs (upsert_time clk) result src (jobs_tbl w)))\<rparr>,
      w\<lparr>jobs_tbl := fst (upsertJobs (upsert_time clk) result src (jobs_tbl w)),
        scraperRuns_tbl :=
           scraperRuns_tbl w @
             [close_completed (close_time clk)
                (snd (upsertJobs (upsert_time clk) result src (jobs_tbl w))) (runRecord_of clk src w)],
        activeSchedules :=
           (if man then scheduleNextRun src kw h (activeSchedules w) else activeSchedules w),
        spawned := spawned w @ [(kw, src)]\<rparr>)"
proof -
  obtain r runs1 where ins: "insert_run (scraperRuns_tbl w) src (start_time clk) (db_time clk) = (r, runs1)"
    by (cases "insert_run (scraperRuns_tbl w) src (start_time clk) (db_time clk)")
  from insert_run_shape[OF ins]
  have r1: "runs1 = scraperRuns_tbl w @ [r]"
    and fresh: "\<forall>x \<in> set (scraperRuns_tbl w). run_id x \<noteq> run_id r"
    by blast+
  have upd: "update_run (run_id r) f runs1 = scraperRuns_tbl w @ [f r]" for f
    unfolding r1 by (rule update_run_append_fresh[OF fresh])
  obtain tbl' st where up: "upsertJobs (upsert_time clk) result src (jobs_tbl w) = (tbl', st)"
    by (cases "upsertJobs (upsert_time clk) result src (jobs_tbl w)")
  from ins have "runRecord_of clk src w = r" by (simp add: runRecord_of_def)
  then show ?thesis using assms ins upd up
    by (simp add: runScraperWorkflow_def Let_def)
qed

lemma first_blocked_None_iff:
  "first_blocked h runs tm srcs = None \<longleftrightarrow>
     (\<forall>s \<in> set srcs. canRun (canRunScraper h runs (tm s) s))"
  by (induction srcs) (auto simp: Let_def)

lemma first_blocked_Some:
  "first_blocked h runs tm srcs = Some (b, m) \<Longrightarrow>
     b \<in> set srcs \<and> \<not> canRun (canRunScraper h runs (tm b) b) \<and>
     m = minutesUntilNext (canRunScraper h runs (tm b) b)"
  by (induction srcs) (auto simp: Let_def split: if_splits)

lemma wf_fst:
  "fst (runScraperWorkflow P h clk proc src kw man w) =
     (case first_blocked h (scraperRuns_tbl w) (check_time clk) (sources_of src) of
        Some (b, m) \<Rightarrow>
          Some \<lparr>wf_success = False,
                message = ''Must wait '' @ show_int m @ '' more minutes before running ''
                          @ b @ '' scraper'',
                stats = None\<rparr>
      | None \<Rightarrow>
          (case runPythonScraper P (proc kw src) of
             Pending \<Rightarrow> None
           | Rejected e \<Rightarrow>
               Some \<lparr>wf_success = False, message = ''Scraper failed: '' @ e, stats = None\<rparr>
           | Resolved result \<Rightarrow>
               Some \<lparr>wf_success = True, message = ''Scraper completed successfully'',
                     stats = Some (snd (upsertJobs (upsert_time clk) result src (jobs_tbl w)))\<rparr>))"
proof (cases "first_blocked h (scraperRuns_tbl w) (check_time clk) (sources_of src)")
  case None
  then show ?thesis
    by (cases "runPythonScraper P (proc kw src)")
       (simp_all add: wf_pending wf_rejected wf_resolved)
next
  case (Some bm)
  then show ?thesis by (cases bm) (simp add: wf_blocked)
qed

lemma wf_runs_tbl:
  "scraperRuns_tbl (snd (runScraperWorkflow P h clk proc src kw man w)) =
     (case first_blocked h (scraperRuns_tbl w) (check_time clk) (sources_of src) of
        Some bm \<Rightarrow> scraperRuns_tbl w
      | None \<Rightarrow>
          scraperRuns_tbl w @
            [case runPythonScraper P (proc kw src) of
               Pending \<Rightarrow> runRecord_of clk src w
             | Rejected e \<Rightarrow> close_failed (close_time clk) e (runRecord_of clk src w)
             | Resolved result \<Rightarrow>
                 close_completed (close_time clk)
                   (snd (upsertJobs (upsert_time clk) result src (jobs_tbl w)))
                   (runRecord_of clk src w)])"
proof (cases "first_blocked h (scraperRuns_tbl w) (check_time clk) (sources_of src)")
  case None
  then show ?thesis
    by (cases "runPythonScraper P (proc kw src)")
       (simp_all add: wf_pending wf_rejected wf_resolved)
next
  case (Some bm)
  then show ?thesis by (cases bm) (simp add: wf_blocked)
qed

lemma wf_jobs_tbl:
  "jobs_tbl (snd (runScraperWorkflow P h clk proc src kw man w)) =
     (case first_blocked h (scraperRuns_tbl w) (check_time clk) (sources_of src) of
        Some bm \<Rightarrow> jobs_tbl w
      | None \<Rightarrow>
          (case runPythonScraper P (proc kw src) of
             Resolved result \<Rightarrow> fst (upsertJobs (upsert_time clk) result src (jobs_tbl w))
           | _ \<Rightarrow> jobs_tbl w))"
proof (cases "first_blocked h (scraperRuns_tbl w) (check_time clk) (sources_of src)")
  case None
  then show ?thesis
    by (cases "runPythonScraper P (proc kw src)")
       (simp_all add: wf_pending wf_rejected wf_resolved)
next
  case (Some bm)
  then show ?thesis by (cases bm) (simp add: wf_blocked)
qed

lemma runRecord_fields:
  "run_status (runRecord_of clk src w) = Running" "run_completedAt (runRecord_of clk src w) = None"
  "run_source (runRecord_of clk src w) = src" "run_startedAt (runRecord_of clk src w) = start_time clk"
  "run_error (runRecord_of clk src w) = None"
  "run_id (runRecord_of clk src w) = next_id (map run_id (scraperRuns_tbl w))"
  by (simp_all add: runRecord_of_def insert_run_def Let_def)

lemma idle_not_blocked:
  "first_blocked h (scraperRuns_tbl idle_world) tm srcs = None"
  by (induction srcs)
     (simp_all add: idle_world_def canRunScraper_def completed_runs_of_def Let_def)

lemma sample_gate:
  "canRunScraper 2 (scraperRuns_tbl sample_world) (check_time sample_clock ''linkedin'') ''linkedin''
     = \<lparr>canRun = False, minutesUntilNext = 110\<rparr>"
  by (simp add: canRunScraper_def completed_runs_of_def sample_world_def sample_run_def
      sample_clock_def)

lemma show_int_110: "show_int 110 = ''110''"
  by code_simp

lemma canRunScraper_cong:
  "completed_runs_of s runs' = completed_runs_of s runs \<Longrightarrow>
     canRunScraper h runs' now s = canRunScraper h runs now s"
  by (simp add: canRunScraper_def)

text \<open>
  C5. When the gate blocks one of the effective sources (for \<open>all\<close>: linkedin and
  stepstone), the call returns a failure whose message names the first blocked source and
  its minutes to wait, and the world is the one it was given: no run record, no process
  started, no listing and no timer touched.
\<close>

theorem blocked_run_has_no_effect:
  assumes "\<exists>s \<in> set (sources_of src).
             \<not> canRun (canRunScraper h (scraperRuns_tbl w) (check_time clk s) s)"
  shows "sources_of ''all'' = [''linkedin'', ''stepstone''] \<and>
     (\<exists>b \<in> set (sources_of src).
        \<not> canRun (canRunScraper h (scraperRuns_tbl w) (check_time clk b) b) \<and>
        runScraperWorkflow JSON_parse h clk proc src kw isManualTrigger w =
          (Some \<lparr>wf_success = False,
                 message = ''Must wait '' @
                   show_int (minutesUntilNext
                     (canRunScraper h (scraperRuns_tbl w) (check_time clk b) b)) @
                   '' more minutes before running '' @ b @ '' scraper'',
                 stats = None\<rparr>, w))"
proof -
  from assms have "first_blocked h (scraperRuns_tbl w) (check_time clk) (sources_of src) \<noteq> None"
    by (simp add: first_blocked_None_iff)
  then obtain b m where
    fb: "first_blocked h (scraperRuns_tbl w) (check_time clk) (sources_of src) = Some (b, m)"
    by auto
  from first_blocked_Some[OF fb] wf_blocked[OF fb, of JSON_parse proc kw isManualTrigger]
  have "b \<in> set (sources_of src) \<and>
        \<not> canRun (canRunScraper h (scraperRuns_tbl w) (check_time clk b) b) \<and>
        runScraperWorkflow JSON_parse h clk proc src kw isManualTrigger w =
          (Some \<lparr>wf_success = False,
                 message = ''Must wait '' @
                   show_int (minutesUntilNext
                     (canRunScraper h (scraperRuns_tbl w) (check_time clk b) b)) @
                   '' more minutes before running '' @ b @ '' scraper'',
                 stats = None\<rparr>, w)"
    by simp
  then show ?thesis by (auto simp: sources_of_def)
qed

theorem blocked_run_has_no_effect_witness:
  "(\<exists>s \<in> set (sources_of ''linkedin'').
      \<not> canRun (canRunScraper 2 (scraperRuns_tbl sample_world) (check_time sample_clock s) s)) \<and>
   runScraperWorkflow sample_JSON_parse 2 sample_clock sample_proc_ok ''linkedin'' ''embedded'' True
     sample_world =
     (Some \<lparr>wf_success = False,
            message = ''Must wait 110 more minutes before running linkedin scraper'',
            stats = None\<rparr>, sample_world)"
proof -
  have blocked: "\<exists>s \<in> set (sources_of ''linkedin'').
      \<not> canRun (canRunScraper 2 (scraperRuns_tbl sample_world) (check_time sample_clock s) s)"
    using sample_gate by (simp add: sources_of_def)
  from blocked_run_has_no_effect[OF blocked, of sample_JSON_parse sample_proc_ok "''embedded''" True]
  obtain b where b: "b \<in> set (sources_of ''linkedin'')"
    and run: "runScraperWorkflow sample_JSON_parse 2 sample_clock sample_proc_ok ''linkedin''
        ''embedded'' True sample_world =
          (Some \<lparr>wf_success = False,
                 message = ''Must wait '' @
                   show_int (minutesUntilNext
                     (canRunScraper 2 (scraperRuns_tbl sample_world)
                        (check_time sample_clock b) b)) @
                   '' more minutes before running '' @ b @ '' scraper'',
                 stats = None\<rparr>, sample_world)"
    by blast
  from b have "b = ''linkedin''" by (simp add: sources_of_def)
  with run sample_gate show_int_110 blocked show ?thesis by simp
qed

text \<open>
  C6. A call the gate lets through inserts one run record, with status running and no
  completion time, under a key no earlier record has. The call returns exactly when the
  process delivers a close or an error event. If the invocation is rejected, the call
  returns a failure and has closed that record as failed, with the error text and its
  completion time; if it is resolved, the call returns success and has closed the
  record as completed, with the counts and its completion time. So a call that returns
  has closed its record once, and only a call that never returns leaves it running. The
  records that were in the ledger before the call are not touched by it, and the ledger
  keeps the invariant that a completion time is set exactly when the status is not
  running.
\<close>

theorem run_record_lifecycle:
  "(first_blocked h (scraperRuns_tbl w) (check_time clk) (sources_of src) \<noteq> None \<longrightarrow>
      scraperRuns_tbl (snd (runScraperWorkflow JSON_parse h clk proc src kw isManualTrigger w)) =
        scraperRuns_tbl w)
   \<and> (first_blocked h (scraperRuns_tbl w) (check_time clk) (sources_of src) = None \<longrightarrow>
        run_status (runRecord_of clk src w) = Running \<and>
        run_completedAt (runRecord_of clk src w) = None \<and>
        (\<forall>r \<in> set (scraperRuns_tbl w). run_id r \<noteq> run_id (runRecord_of clk src w)) \<and>
        (fst (runScraperWorkflow JSON_parse h clk proc src kw isManualTrigger w) \<noteq> None \<longleftrightarrow>
           (\<exists>e \<in> set (proc kw src). \<not> is_data e)) \<and>
        (\<forall>errorMessage.
           runPythonScraper JSON_parse (proc kw src) = Rejected errorMessage \<longrightarrow>
             fst (runScraperWorkflow JSON_parse h clk proc src kw isManualTrigger w) =
               Some \<lparr>wf_success = False, message = ''Scraper failed: '' @ errorMessage,
                      stats = None\<rparr> \<and>
             scraperRuns_tbl (snd (runScraperWorkflow JSON_parse h clk proc src kw isManualTrigger w)) =
               scraperRuns_tbl w @
                 [(runRecord_of clk src w)
                    \<lparr>run_status := Failed, run_completedAt := Some (close_time clk),
                     run_error := Some errorMessage\<rparr>]) \<and>
        (\<forall>result.
           runPythonScraper JSON_parse (proc kw src) = Resolved result \<longrightarrow>
             fst (runScraperWorkflow JSON_parse h clk proc src kw isManualTrigger w) =
               Some \<lparr>wf_success = True, message = ''Scraper completed successfully'',
                      stats = Some (snd (upsertJobs (upsert_time clk) result src (jobs_tbl w)))\<rparr> \<and>
             scraperRuns_tbl (snd (runScraperWorkflow JSON_parse h clk proc src kw isManualTrigger w)) =
               scraperRuns_tbl w @
                 [(runRecord_of clk src w)
                    \<lparr>run_status := Completed, run_completedAt := Some (close_time clk),
                     run_jobsFound :=
                       totalJobs (snd (upsertJobs (upsert_time clk) result src (jobs_tbl w))),
                     run_newJobs :=
                       newJobs (snd (upsertJobs (upsert_time clk) result src (jobs_tbl w)))\<rparr>]) \<and>
        (fst (runScraperWorkflow JSON_parse h clk proc src kw isManualTrigger w) = None \<longrightarrow>
           scraperRuns_tbl (snd (runScraperWorkflow JSON_parse h clk proc src kw isManualTrigger w)) =
             scraperRuns_tbl w @ [runRecord_of clk src w]) \<and>
        (\<forall>res. fst (runScraperWorkflow JSON_parse h clk proc src kw isManualTrigger w) = Some res \<longrightarrow>
           (\<exists>closed.
              scraperRuns_tbl (snd (runScraperWorkflow JSON_parse h clk proc src kw isManualTrigger w)) =
                scraperRuns_tbl w @ [closed] \<and>
              run_id closed = run_id (runRecord_of clk src w) \<and>
              run_source closed = src \<and>
              run_startedAt closed = start_time clk \<and>
              run_status closed = (if wf_success res then Completed else Failed) \<and>
              run_completedAt closed = Some (close_time clk))))
   \<and> take (length (scraperRuns_tbl w))
        (scraperRuns_tbl (snd (runScraperWorkflow JSON_parse h clk proc src kw isManualTrigger w))) =
        scraperRuns_tbl w
   \<and> ((\<forall>r \<in> set (scraperRuns_tbl w). (run_completedAt r \<noteq> None) = (run_status r \<noteq> Running)) \<longrightarrow>
       (\<forall>r \<in> set (scraperRuns_tbl
                     (snd (runScraperWorkflow JSON_parse h clk proc src kw isManualTrigger w))).
          (run_completedAt r \<noteq> None) = (run_status r \<noteq> Running)))"
proof -
  let ?wf = "runScraperWorkflow JSON_parse h clk proc src kw isManualTrigger w"
  let ?fb = "first_blocked h (scraperRuns_tbl w) (check_time clk) (sources_of src)"
  let ?runs = "scraperRuns_tbl w"
  let ?o = "runRecord_of clk src w"
  let ?p = "runPythonScraper JSON_parse (proc kw src)"
  have blocked: "scraperRuns_tbl (snd ?wf) = ?runs" if "?fb \<noteq> None"
    using that by (auto simp: wf_runs_tbl)
  have fresh: "\<forall>r \<in> set ?runs. run_id r \<noteq> run_id ?o"
  proof
    fix r assume "r \<in> set ?runs"
    then have "run_id r \<in> set (map run_id ?runs)" by simp
    from next_id_fresh[OF this] show "run_id r \<noteq> run_id ?o"
      by (simp add: runRecord_fields)
  qed
  have returns: "fst ?wf \<noteq> None \<longleftrightarrow> (\<exists>e \<in> set (proc kw src). \<not> is_data e)" if nb: "?fb = None"
  proof -
    have "fst ?wf = None \<longleftrightarrow> ?p = Pending"
      using nb by (cases ?p) (simp_all add: wf_fst)
    also have "\<dots> \<longleftrightarrow> (\<forall>e \<in> set (proc kw src). is_data e)"
      by (rule runPythonScraper_pending_iff)
    finally have "fst ?wf = None \<longleftrightarrow> (\<forall>e \<in> set (proc kw src). is_data e)" .
    then show ?thesis by simp
  qed
  have rejected: "fst ?wf =
               Some \<lparr>wf_success = False, message = ''Scraper failed: '' @ errorMessage,
                      stats = None\<rparr> \<and>
             scraperRuns_tbl (snd ?wf) =
               ?runs @ [?o\<lparr>run_status := Failed, run_completedAt := Some (close_time clk),
                            run_error := Some errorMessage\<rparr>]"
    if nb: "?fb = None" and rej: "?p = Rejected errorMessage" for errorMessage
    using nb rej by (simp add: wf_fst wf_runs_tbl close_failed_def)
  have resolved: "fst ?wf =
               Some \<lparr>wf_success = True, message = ''Scraper completed successfully'',
                      stats = Some (snd (upsertJobs (upsert_time clk) result src (jobs_tbl w)))\<rparr> \<and>
             scraperRuns_tbl (snd ?wf) =
               ?runs @
                 [?o\<lparr>run_status := Completed, run_completedAt := Some (close_time clk),
                     run_jobsFound :=
                       totalJobs (snd (upsertJobs (upsert_time clk) result src (jobs_tbl w))),
                     run_newJobs :=
                       newJobs (snd (upsertJobs (upsert_time clk) result src (jobs_tbl w)))\<rparr>]"
    if nb: "?fb = None" and res: "?p = Resolved result" for result
    using nb res by (simp add: wf_fst wf_runs_tbl close_completed_def)
  have pend: "scraperRuns_tbl (snd ?wf) = ?runs @ [?o]" if "?fb = None" "fst ?wf = None"
  proof -
    from that have "?p = Pending"
      by (cases ?p) (simp_all add: wf_fst)
    with that(1) show ?thesis by (simp add: wf_runs_tbl)
  qed
  have closed: "\<exists>closed.
              scraperRuns_tbl (snd ?wf) = ?runs @ [closed] \<and>
              run_id closed = run_id ?o \<and>
              run_source closed = src \<and>
              run_startedAt closed = start_time clk \<and>
              run_status closed = (if wf_success res then Completed else Failed) \<and>
              run_completedAt closed = Some (close_time clk)"
    if nb: "?fb = None" and ret: "fst ?wf = Some res" for res
  proof (cases ?p)
    case Pending
    with nb ret show ?thesis by (simp add: wf_fst)
  next
    case (Rejected e)
    with nb ret have "\<not> wf_success res" by (auto simp: wf_fst)
    with nb Rejected show ?thesis
      by (simp add: wf_runs_tbl close_failed_def runRecord_fields)
  next
    case (Resolved result)
    with nb ret have "wf_success res" by (auto simp: wf_fst)
    with nb Resolved show ?thesis
      by (simp add: wf_runs_tbl close_completed_def runRecord_fields)
  qed
  have prefix: "take (length ?runs) (scraperRuns_tbl (snd ?wf)) = ?runs"
    by (cases ?fb) (simp_all add: wf_runs_tbl)
  have inv: "\<forall>r \<in> set (scraperRuns_tbl (snd ?wf)).
          (run_completedAt r \<noteq> None) = (run_status r \<noteq> Running)"
    if old: "\<forall>r \<in> set ?runs. (run_completedAt r \<noteq> None) = (run_status r \<noteq> Running)"
  proof (cases ?fb)
    case (Some bm)
    with old show ?thesis by (simp add: wf_runs_tbl)
  next
    case None
    with old show ?thesis
      by (cases ?p)
         (simp_all add: wf_runs_tbl close_failed_def close_completed_def runRecord_fields)
  qed
  have op: "run_status ?o = Running \<and> run_completedAt ?o = None"
    by (simp add: runRecord_fields)
  have second: "?fb = None \<longrightarrow>
        run_status ?o = Running \<and> run_completedAt ?o = None \<and>
        (\<forall>r \<in> set ?runs. run_id r \<noteq> run_id ?o) \<and>
        (fst ?wf \<noteq> None \<longleftrightarrow> (\<exists>e \<in> set (proc kw src). \<not> is_data e)) \<and>
        (\<forall>errorMessage. ?p = Rejected errorMessage \<longrightarrow>
             fst ?wf =
               Some \<lparr>wf_success = False, message = ''Scraper failed: '' @ errorMessage,
                      stats = None\<rparr> \<and>
             scraperRuns_tbl (snd ?wf) =
               ?runs @ [?o\<lparr>run_status := Failed, run_completedAt := Some (close_time clk),
                            run_error := Some errorMessage\<rparr>]) \<and>
        (\<forall>result. ?p = Resolved result \<longrightarrow>
             fst ?wf =
               Some \<lparr>wf_success = True, message = ''Scraper completed successfully'',
                      stats = Some (snd (upsertJobs (upsert_time clk) result src (jobs_tbl w)))\<rparr> \<and>
             scraperRuns_tbl (snd ?wf) =
               ?runs @
                 [?o\<lparr>run_status := Completed, run_completedAt := Some (close_time clk),
                     run_jobsFound :=
                       totalJobs (snd (upsertJobs (upsert_time clk) result src (jobs_tbl w))),
                     run_newJobs :=
                       newJobs (snd (upsertJobs (upsert_time clk) result src (jobs_tbl w)))\<rparr>]) \<and>
        (fst ?wf = None \<longrightarrow> scraperRuns_tbl (snd ?wf) = ?runs @ [?o]) \<and>
        (\<forall>res. fst ?wf = Some res \<longrightarrow>
           (\<exists>closed.
              scraperRuns_tbl (snd ?wf) = ?runs @ [closed] \<and>
              run_id closed = run_id ?o \<and>
              run_source closed = src \<and>
              run_startedAt closed = start_time clk \<and>
              run_status closed = (if wf_success res then Completed else Failed) \<and>
              run_completedAt closed = Some (close_time clk)))"
  proof (intro impI conjI allI)
    assume nb: "?fb = None"
    show "run_status ?o = Running" "run_completedAt ?o = None" using op by simp_all
    show "\<forall>r \<in> set ?runs. run_id r \<noteq> run_id ?o" by (rule fresh)
    show "fst ?wf \<noteq> None \<longleftrightarrow> (\<exists>e \<in> set (proc kw src). \<not> is_data e)" by (rule returns[OF nb])
  next
    fix errorMessage
    assume "?fb = None" "?p = Rejected errorMessage"
    from rejected[OF this]
    show "fst ?wf =
               Some \<lparr>wf_success = False, message = ''Scraper failed: '' @ errorMessage,
                      stats = None\<rparr>"
      and "scraperRuns_tbl (snd ?wf) =
               ?runs @ [?o\<lparr>run_status := Failed, run_completedAt := Some (close_time clk),
                            run_error := Some errorMessage\<rparr>]"
      by simp_all
  next
    fix result
    assume "?fb = None" "?p = Resolved result"
    from resolved[OF this]
    show "fst ?wf =
               Some \<lparr>wf_success = True, message = ''Scraper completed successfully'',
                      stats = Some (snd (upsertJobs (upsert_time clk) result src (jobs_tbl w)))\<rparr>"
      and "scraperRuns_tbl (snd ?wf) =
               ?runs @
                 [?o\<lparr>run_status := Completed, run_completedAt := Some (close_time clk),
                     run_jobsFound :=
                       totalJobs (snd (upsertJobs (upsert_time clk) result src (jobs_tbl w))),
                     run_newJobs :=
                       newJobs (snd (upsertJobs (upsert_time clk) result src (jobs_tbl w)))\<rparr>]"
      by simp_all
  next
    assume "?fb = None" "fst ?wf = None"
    then show "scraperRuns_tbl (snd ?wf) = ?runs @ [?o]" by (rule pend)
  next
    fix res
    assume "?fb = None" "fst ?wf = Some res"
    then show "\<exists>closed.
              scraperRuns_tbl (snd ?wf) = ?runs @ [closed] \<and>
              run_id closed = run_id ?o \<and>
              run_source closed = src \<and>
              run_startedAt closed = start_time clk \<and>
              run_status closed = (if wf_success res then Completed else Failed) \<and>
              run_completedAt closed = Some (close_time clk)"
      by (rule closed)
  qed
  from blocked have first: "?fb \<noteq> None \<longrightarrow> scraperRuns_tbl (snd ?wf) = ?runs" by blast
  from inv have last: "(\<forall>r \<in> set ?runs. (run_completedAt r \<noteq> None) = (run_status r \<noteq> Running)) \<longrightarrow>
       (\<forall>r \<in> set (scraperRuns_tbl (snd ?wf)).
          (run_completedAt r \<noteq> None) = (run_status r \<noteq> Running))" by blast
  from first second prefix last show ?thesis by (intro conjI)
qed

theorem run_record_lifecycle_witness:
  "first_blocked 2 (scraperRuns_tbl idle_world) (check_time sample_clock) (sources_of ''linkedin'')
     = None \<and>
   run_status (runRecord_of sample_clock ''linkedin'' idle_world) = Running \<and>
   run_completedAt (runRecord_of sample_clock ''linkedin'' idle_world) = None \<and>
   fst (runScraperWorkflow sample_JSON_parse 2 sample_clock sample_proc_ok
         ''linkedin'' ''embedded'' True idle_world) \<noteq> None \<and>
   scraperRuns_tbl (snd (runScraperWorkflow sample_JSON_parse 2 sample_clock sample_proc_ok
         ''linkedin'' ''embedded'' True idle_world)) =
     scraperRuns_tbl idle_world @
       [(runRecord_of sample_clock ''linkedin'' idle_world)
          \<lparr>run_status := Completed, run_completedAt := Some (close_time sample_clock),
           run_jobsFound := totalJobs (snd (upsertJobs (upsert_time sample_clock)
              (sample_result [sample_scraped2]) ''linkedin'' (jobs_tbl idle_world))),
           run_newJobs := newJobs (snd (upsertJobs (upsert_time sample_clock)
              (sample_result [sample_scraped2]) ''linkedin'' (jobs_tbl idle_world)))\<rparr>] \<and>
   fst (runScraperWorkflow sample_JSON_parse 2 sample_clock sample_proc_blocked
         ''linkedin'' ''embedded'' True idle_world) =
     Some \<lparr>wf_success = False, message = ''Scraper failed: '' @ ''blocked'', stats = None\<rparr> \<and>
   scraperRuns_tbl (snd (runScraperWorkflow sample_JSON_parse 2 sample_clock sample_proc_blocked
         ''linkedin'' ''embedded'' True idle_world)) =
     scraperRuns_tbl idle_world @
       [(runRecord_of sample_clock ''linkedin'' idle_world)
          \<lparr>run_status := Failed, run_completedAt := Some (close_time sample_clock),
           run_error := Some ''blocked''\<rparr>] \<and>
   map run_status (scraperRuns_tbl (snd (runScraperWorkflow sample_JSON_parse 2 sample_clock
         sample_proc_blocked ''linkedin'' ''embedded'' True idle_world))) = [Failed]"
proof -
  have nb: "first_blocked 2 (scraperRuns_tbl idle_world) (check_time sample_clock)
      (sources_of ''linkedin'') = None"
    by (rule idle_not_blocked)
  have closes: "\<exists>e \<in> set (sample_proc_ok ''embedded'' ''linkedin''). \<not> is_data e"
    by (simp add: sample_proc_ok_def is_data_def)
  have ok: "runPythonScraper sample_JSON_parse (sample_proc_ok ''embedded'' ''linkedin'') =
      Resolved (sample_result [sample_scraped2])"
    by (rule sample_ok_resolved)
  have bad: "runPythonScraper sample_JSON_parse (sample_proc_blocked ''embedded'' ''linkedin'') =
      Rejected ''blocked''"
    by (rule sample_blocked_rejected)
  note good_run = run_record_lifecycle[where h = 2 and w = idle_world and clk = sample_clock
      and src = "''linkedin''" and JSON_parse = sample_JSON_parse and proc = sample_proc_ok
      and kw = "''embedded''" and isManualTrigger = True]
  note bad_run = run_record_lifecycle[where h = 2 and w = idle_world and clk = sample_clock
      and src = "''linkedin''" and JSON_parse = sample_JSON_parse and proc = sample_proc_blocked
      and kw = "''embedded''" and isManualTrigger = True]
  from good_run nb have "run_status (runRecord_of sample_clock ''linkedin'' idle_world) = Running \<and>
   run_completedAt (runRecord_of sample_clock ''linkedin'' idle_world) = None"
    by blast
  moreover from good_run nb closes
  have "fst (runScraperWorkflow sample_JSON_parse 2 sample_clock sample_proc_ok
         ''linkedin'' ''embedded'' True idle_world) \<noteq> None"
    by blast
  moreover from good_run nb ok
  have "scraperRuns_tbl (snd (runScraperWorkflow sample_JSON_parse 2 sample_clock sample_proc_ok
         ''linkedin'' ''embedded'' True idle_world)) =
     scraperRuns_tbl idle_world @
       [(runRecord_of sample_clock ''linkedin'' idle_world)
          \<lparr>run_status := Completed, run_completedAt := Some (close_time sample_clock),
           run_jobsFound := totalJobs (snd (upsertJobs (upsert_time sample_clock)
              (sample_result [sample_scraped2]) ''linkedin'' (jobs_tbl idle_world))),
           run_newJobs := newJobs (snd (upsertJobs (upsert_time sample_clock)
              (sample_result [sample_scraped2]) ''linkedin'' (jobs_tbl idle_world)))\<rparr>]"
    by blast
  moreover from bad_run nb bad
  have failed: "fst (runScraperWorkflow sample_JSON_parse 2 sample_clock sample_proc_blocked
         ''linkedin'' ''embedded'' True idle_world) =
     Some \<lparr>wf_success = False, message = ''Scraper failed: '' @ ''blocked'', stats = None\<rparr> \<and>
   scraperRuns_tbl (snd (runScraperWorkflow sample_JSON_parse 2 sample_clock sample_proc_blocked
         ''linkedin'' ''embedded'' True idle_world)) =
     scraperRuns_tbl idle_world @
       [(runRecord_of sample_clock ''linkedin'' idle_world)
          \<lparr>run_status := Failed, run_completedAt := Some (close_time sample_clock),
           run_error := Some ''blocked''\<rparr>]"
    by blast
  moreover from failed
  have "map run_status (scraperRuns_tbl (snd (runScraperWorkflow sample_JSON_parse 2 sample_clock
         sample_proc_blocked ''linkedin'' ''embedded'' True idle_world))) = [Failed]"
    by (simp add: idle_world_def)
  ultimately show ?thesis using nb by blast
qed

text \<open>
  C7. The process writes the document \<open>{"success":false,"error":"blocked"}\<close> and exits
  with code 0; the document parses to a result whose success field is false and whose
  error is \<open>blocked\<close>. Then the invoker rejects with that string, the coordinator
  closes the run record as failed with error text \<open>blocked\<close>, touches no listing, and
  returns a result with success false: the failure is a value, not an exception.
\<close>

theorem reported_failure_closes_run_as_failed:
  assumes parse: "JSON_parse ''{\"success\":false,\"error\":\"blocked\"}'' = Some result"
      and falsy: "\<not> success result"
      and err: "error result = Some ''blocked''"
      and data: "\<forall>e \<in> set ds. is_data e"
      and out: "stdout_of ds = ''{\"success\":false,\"error\":\"blocked\"}''"
      and events: "proc kw src = ds @ Close (Some 0) # rest"
      and free: "first_blocked h (scraperRuns_tbl w) (check_time clk) (sources_of src) = None"
  shows "runPythonScraper JSON_parse (proc kw src) = Rejected ''blocked'' \<and>
     fst (runScraperWorkflow JSON_parse h clk proc src kw isManualTrigger w) =
       Some \<lparr>wf_success = False, message = ''Scraper failed: blocked'', stats = None\<rparr> \<and>
     scraperRuns_tbl (snd (runScraperWorkflow JSON_parse h clk proc src kw isManualTrigger w)) =
       scraperRuns_tbl w @
         [(runRecord_of clk src w)\<lparr>run_status := Failed, run_completedAt := Some (close_time clk),
                              run_error := Some ''blocked''\<rparr>] \<and>
     jobs_tbl (snd (runScraperWorkflow JSON_parse h clk proc src kw isManualTrigger w)) = jobs_tbl w"
proof -
  have "runPythonScraper JSON_parse (proc kw src) =
          on_close JSON_parse (Some 0) (stdout_of ds) (stderr_of ds)"
    unfolding events using data by (rule runPythonScraper_close)
  also have "\<dots> = Rejected ''blocked''"
    using parse falsy err by (simp add: on_close_def out or_default_def)
  finally have rej: "runPythonScraper JSON_parse (proc kw src) = Rejected ''blocked''" .
  from wf_rejected[where proc = proc and kw = kw and src = src and man = isManualTrigger,
      OF free rej] rej show ?thesis
    by (simp add: close_failed_def)
qed

theorem reported_failure_closes_run_as_failed_witness:
  "runPythonScraper sample_JSON_parse (sample_proc_blocked ''embedded'' ''linkedin'') =
     Rejected ''blocked'' \<and>
   fst (runScraperWorkflow sample_JSON_parse 2 sample_clock sample_proc_blocked ''linkedin''
          ''embedded'' True idle_world) =
     Some \<lparr>wf_success = False, message = ''Scraper failed: blocked'', stats = None\<rparr> \<and>
   scraperRuns_tbl (snd (runScraperWorkflow sample_JSON_parse 2 sample_clock sample_proc_blocked
          ''linkedin'' ''embedded'' True idle_world)) =
     scraperRuns_tbl idle_world @
       [(runRecord_of sample_clock ''linkedin'' idle_world)
          \<lparr>run_status := Failed, run_completedAt := Some (close_time sample_clock),
           run_error := Some ''blocked''\<rparr>]"
proof -
  let ?res = "\<lparr>success = False, keyword = [], timestamp = [], total_jobs = 0, jobs = [],
                 error = Some ''blocked''\<rparr>"
  have parse: "sample_JSON_parse ''{\"success\":false,\"error\":\"blocked\"}'' = Some ?res"
    by (simp add: sample_JSON_parse_def blocked_doc_def)
  have falsy: "\<not> success ?res" by simp
  have err: "error ?res = Some ''blocked''" by simp
  have data: "\<forall>e \<in> set [StdoutData blocked_doc]. is_data e" by (simp add: is_data_def)
  have out: "stdout_of [StdoutData blocked_doc] = ''{\"success\":false,\"error\":\"blocked\"}''"
    by (simp add: stdout_of_def blocked_doc_def)
  have events: "sample_proc_blocked ''embedded'' ''linkedin'' =
      [StdoutData blocked_doc] @ Close (Some 0) # []"
    by (simp add: sample_proc_blocked_def)
  have free: "first_blocked 2 (scraperRuns_tbl idle_world) (check_time sample_clock)
      (sources_of ''linkedin'') = None"
    by (rule idle_not_blocked)
  from reported_failure_closes_run_as_failed[where JSON_parse = sample_JSON_parse
      and result = ?res and ds = "[StdoutData blocked_doc]" and rest = "[]"
      and proc = sample_proc_blocked and kw = "''embedded''" and src = "''linkedin''"
      and h = 2 and clk = sample_clock and w = idle_world and isManualTrigger = True,
      OF parse falsy err data out events free]
  show ?thesis by blast
qed

text \<open>
  C8, as the claim states it, fails: the invoker registers handlers for output, close
  and error, and no timer. A process that writes a progress line and then neither closes
  nor fails leaves the promise pending, the call of the coordinator not returning, and
  the run record in status running.
\<close>

theorem no_timeout_counterexample:
  "runPythonScraper sample_JSON_parse (sample_proc_hangs ''embedded'' ''linkedin'') = Pending \<and>
   fst (runScraperWorkflow sample_JSON_parse 2 sample_clock sample_proc_hangs ''linkedin''
          ''embedded'' True idle_world) = None \<and>
   map run_status (scraperRuns_tbl (snd (runScraperWorkflow sample_JSON_parse 2 sample_clock
          sample_proc_hangs ''linkedin'' ''embedded'' True idle_world))) = [Running]"
proof -
  have p: "runPythonScraper sample_JSON_parse (sample_proc_hangs ''embedded'' ''linkedin'') = Pending"
    by (simp add: runPythonScraper_def sample_proc_hangs_def)
  have nb: "first_blocked 2 (scraperRuns_tbl idle_world) (check_time sample_clock)
      (sources_of ''linkedin'') = None"
    by (rule idle_not_blocked)
  have "scraperRuns_tbl idle_world = []" by (simp add: idle_world_def)
  with wf_pending[where proc = sample_proc_hangs and kw = "''embedded''" and src = "''linkedin''"
      and man = True, OF nb p] p show ?thesis by (simp add: runRecord_fields)
qed

text \<open>
  C8, amended. The invoker sets no deadline: its promise is pending exactly as long as
  the process has delivered output only, and it settles on the first close or error
  event. While that event does not come, the coordinator does not return and its run
  record stays in status running.
\<close>

theorem invoke_settles_only_on_close_or_error:
  "(runPythonScraper JSON_parse events = Pending \<longleftrightarrow> (\<forall>e \<in> set events. is_data e))
   \<and> (first_blocked h (scraperRuns_tbl w) (check_time clk) (sources_of src) = None \<and>
      (\<forall>e \<in> set (proc kw src). is_data e) \<longrightarrow>
        runScraperWorkflow JSON_parse h clk proc src kw isManualTrigger w =
          (None, w\<lparr>scraperRuns_tbl := scraperRuns_tbl w @ [runRecord_of clk src w],
                   spawned := spawned w @ [(kw, src)]\<rparr>) \<and>
        run_status (runRecord_of clk src w) = Running)"
proof -
  have a: "runPythonScraper JSON_parse events = Pending \<longleftrightarrow> (\<forall>e \<in> set events. is_data e)"
    by (rule runPythonScraper_pending_iff)
  have b: "runScraperWorkflow JSON_parse h clk proc src kw isManualTrigger w =
          (None, w\<lparr>scraperRuns_tbl := scraperRuns_tbl w @ [runRecord_of clk src w],
                   spawned := spawned w @ [(kw, src)]\<rparr>) \<and>
        run_status (runRecord_of clk src w) = Running"
    if nb: "first_blocked h (scraperRuns_tbl w) (check_time clk) (sources_of src) = None"
      and d: "\<forall>e \<in> set (proc kw src). is_data e"
  proof -
    from d have "runPythonScraper JSON_parse (proc kw src) = Pending"
      by (simp add: runPythonScraper_pending_iff)
    from wf_pending[where proc = proc and kw = kw and src = src and man = isManualTrigger,
        OF nb this] show ?thesis by (simp add: runRecord_fields)
  qed
  from a b show ?thesis by blast
qed

theorem invoke_settles_only_on_close_or_error_witness:
  "runPythonScraper sample_JSON_parse [StderrData ''Scraping''] = Pending \<and>
   runPythonScraper sample_JSON_parse [StderrData ''Scraping'', Close None] \<noteq> Pending \<and>
   runScraperWorkflow sample_JSON_parse 2 sample_clock sample_proc_hangs ''linkedin''
      ''embedded'' True idle_world =
     (None, idle_world\<lparr>scraperRuns_tbl :=
                          scraperRuns_tbl idle_world @ [runRecord_of sample_clock ''linkedin'' idle_world],
                        spawned := spawned idle_world @ [(''embedded'', ''linkedin'')]\<rparr>)"
proof -
  have d1: "\<forall>e \<in> set [StderrData ''Scraping'']. is_data e" by (simp add: is_data_def)
  have d2: "\<not> (\<forall>e \<in> set [StderrData ''Scraping'', Close None]. is_data e)"
    by (simp add: is_data_def)
  have d3: "\<forall>e \<in> set (sample_proc_hangs ''embedded'' ''linkedin''). is_data e"
    by (simp add: sample_proc_hangs_def is_data_def)
  have nb: "first_blocked 2 (scraperRuns_tbl idle_world) (check_time sample_clock)
      (sources_of ''linkedin'') = None"
    by (rule idle_not_blocked)
  note t1 = invoke_settles_only_on_close_or_error[where JSON_parse = sample_JSON_parse
      and events = "[StderrData ''Scraping'']" and h = 2 and w = idle_world and clk = sample_clock
      and src = "''linkedin''" and proc = sample_proc_hangs and kw = "''embedded''"
      and isManualTrigger = True]
  note t2 = invoke_settles_only_on_close_or_error[where JSON_parse = sample_JSON_parse
      and events = "[StderrData ''Scraping'', Close None]" and h = 2 and w = idle_world
      and clk = sample_clock and src = "''linkedin''" and proc = sample_proc_hangs
      and kw = "''embedded''" and isManualTrigger = True]
  from t1 d1 have "runPythonScraper sample_JSON_parse [StderrData ''Scraping''] = Pending"
    by blast
  moreover from t2 d2
  have "runPythonScraper sample_JSON_parse [StderrData ''Scraping'', Close None] \<noteq> Pending"
    by blast
  moreover from t1 nb d3
  have "runScraperWorkflow sample_JSON_parse 2 sample_clock sample_proc_hangs ''linkedin''
      ''embedded'' True idle_world =
     (None, idle_world\<lparr>scraperRuns_tbl :=
                          scraperRuns_tbl idle_world @ [runRecord_of sample_clock ''linkedin'' idle_world],
                        spawned := spawned idle_world @ [(''embedded'', ''linkedin'')]\<rparr>)"
    by blast
  ultimately show ?thesis by blast
qed

text \<open>
  C9. In a cycle for \<open>all\<close> the clearing step matches the rows whose source is the
  string \<open>all\<close> only. A stored row of any other source that no record of the batch
  names by URL is the same row after the call, in particular as fresh as it was.
\<close>

theorem all_cycle_clears_no_concrete_source:
  assumes k: "k < length (jobs_tbl w)"
      and concrete: "source (jobs_tbl w ! k) \<noteq> ''all''"
      and unvisited: "\<forall>result. runPythonScraper JSON_parse (proc kw ''all'') = Resolved result \<longrightarrow>
                        url (jobs_tbl w ! k) \<notin> sj_url ` set (jobs result)"
  shows "mark_not_new ''all'' (jobs_tbl w) ! k = jobs_tbl w ! k \<and>
     jobs_tbl (snd (runScraperWorkflow JSON_parse h clk proc ''all'' kw isManualTrigger w)) ! k =
       jobs_tbl w ! k \<and>
     isNewInLastHour
       (jobs_tbl (snd (runScraperWorkflow JSON_parse h clk proc ''all'' kw isManualTrigger w)) ! k) =
       isNewInLastHour (jobs_tbl w ! k)"
proof -
  let ?tbl = "jobs_tbl w"
  have clear: "mark_not_new ''all'' ?tbl ! k = ?tbl ! k"
    using k concrete by (simp add: mark_not_new_def)
  have up: "fst (upsertJobs c result ''all'' ?tbl) ! k = ?tbl ! k"
    if "url (?tbl ! k) \<notin> sj_url ` set (jobs result)" for c result
  proof -
    let ?st = "(mark_not_new ''all'' ?tbl, 0::nat)"
    from k have "k < length (fst ?st)" by (simp add: length_mark_not_new)
    moreover from that clear have "url (fst ?st ! k) \<notin> sj_url ` set (jobs result)" by simp
    ultimately have "fst (upsert_loop c 0 (jobs result) ?st) ! k = fst ?st ! k"
      by (rule nth_upsert_loop_other)
    with clear show ?thesis by (simp add: fst_upsertJobs)
  qed
  have same: "jobs_tbl (snd (runScraperWorkflow JSON_parse h clk proc ''all'' kw isManualTrigger w)) ! k
      = ?tbl ! k"
  proof (cases "first_blocked h (scraperRuns_tbl w) (check_time clk) (sources_of ''all'')")
    case (Some bm)
    then show ?thesis by (simp add: wf_jobs_tbl)
  next
    case None
    show ?thesis
    proof (cases "runPythonScraper JSON_parse (proc kw ''all'')")
      case (Resolved result)
      with unvisited have "url (?tbl ! k) \<notin> sj_url ` set (jobs result)" by blast
      from up[OF this] None Resolved show ?thesis by (simp add: wf_jobs_tbl)
    qed (simp_all add: wf_jobs_tbl None)
  qed
  from clear same show ?thesis by simp
qed

theorem all_cycle_clears_no_concrete_source_witness:
  "isNewInLastHour (jobs_tbl idle_world ! 0) \<and>
   fst (runScraperWorkflow sample_JSON_parse 2 sample_clock sample_proc_ok ''all'' ''embedded'' True
          idle_world) \<noteq> None \<and>
   isNewInLastHour
     (jobs_tbl (snd (runScraperWorkflow sample_JSON_parse 2 sample_clock sample_proc_ok ''all''
         ''embedded'' True idle_world)) ! 0)"
proof -
  have k: "0 < length (jobs_tbl idle_world)" by (simp add: idle_world_def)
  have concrete: "source (jobs_tbl idle_world ! 0) \<noteq> ''all''"
    by (simp add: idle_world_def sample_job_def)
  have unvisited: "\<forall>result. runPythonScraper sample_JSON_parse (sample_proc_ok ''embedded'' ''all'')
        = Resolved result \<longrightarrow> url (jobs_tbl idle_world ! 0) \<notin> sj_url ` set (jobs result)"
    by (simp add: sample_ok_resolved sample_result_def idle_world_def sample_job_def
        sample_scraped2_def)
  have fresh: "isNewInLastHour (jobs_tbl idle_world ! 0)"
    by (simp add: idle_world_def sample_job_def)
  have nb: "first_blocked 2 (scraperRuns_tbl idle_world) (check_time sample_clock)
      (sources_of ''all'') = None"
    by (rule idle_not_blocked)
  have ret: "fst (runScraperWorkflow sample_JSON_parse 2 sample_clock sample_proc_ok ''all''
      ''embedded'' True idle_world) \<noteq> None"
    by (simp add: wf_fst nb sample_ok_resolved)
  from all_cycle_clears_no_concrete_source[where JSON_parse = sample_JSON_parse
      and proc = sample_proc_ok and kw = "''embedded''" and w = idle_world and k = 0
      and h = 2 and clk = sample_clock and isManualTrigger = True, OF k concrete unvisited]
    fresh ret
  show ?thesis by blast
qed

text \<open>
  C10. A run for \<open>all\<close> writes its record under the source \<open>all\<close>, and the gate
  reads the records of exactly the source asked. So for every other source the gate
  answers the same on the ledger after the run as on the ledger before it, at any
  moment and for any interval.
\<close>

theorem all_run_starts_no_cooldown:
  assumes "s \<noteq> ''all''"
  shows "canRunScraper h'
       (scraperRuns_tbl (snd (runScraperWorkflow JSON_parse h clk proc ''all'' kw isManualTrigger w)))
       now s =
     canRunScraper h' (scraperRuns_tbl w) now s
   \<and> (first_blocked h (scraperRuns_tbl w) (check_time clk) (sources_of ''all'') = None \<longrightarrow>
        run_source
          (last (scraperRuns_tbl
             (snd (runScraperWorkflow JSON_parse h clk proc ''all'' kw isManualTrigger w)))) = ''all'')"
proof -
  let ?runs' = "scraperRuns_tbl (snd (runScraperWorkflow JSON_parse h clk proc ''all'' kw isManualTrigger w))"
  have shape: "?runs' = scraperRuns_tbl w \<or>
      (\<exists>r. run_source r = ''all'' \<and> ?runs' = scraperRuns_tbl w @ [r])"
  proof (cases "first_blocked h (scraperRuns_tbl w) (check_time clk) (sources_of ''all'')")
    case (Some bm)
    then show ?thesis by (simp add: wf_runs_tbl)
  next
    case None
    then show ?thesis
      by (cases "runPythonScraper JSON_parse (proc kw ''all'')")
         (simp_all add: wf_runs_tbl close_failed_def close_completed_def runRecord_fields)
  qed
  then have "completed_runs_of s ?runs' = completed_runs_of s (scraperRuns_tbl w)"
    using assms by (auto simp: completed_runs_of_def)
  then have gate: "canRunScraper h' ?runs' now s = canRunScraper h' (scraperRuns_tbl w) now s"
    by (rule canRunScraper_cong)
  have src: "run_source (last ?runs') = ''all''"
    if nb: "first_blocked h (scraperRuns_tbl w) (check_time clk) (sources_of ''all'') = None"
    using nb by (cases "runPythonScraper JSON_parse (proc kw ''all'')")
      (simp_all add: wf_runs_tbl close_failed_def close_completed_def runRecord_fields)
  from gate src show ?thesis by blast
qed

theorem all_run_starts_no_cooldown_witness:
  "map run_source (scraperRuns_tbl (snd (runScraperWorkflow sample_JSON_parse 2 sample_clock
      sample_proc_ok ''all'' ''embedded'' True idle_world))) = [''all''] \<and>
   map run_status (scraperRuns_tbl (snd (runScraperWorkflow sample_JSON_parse 2 sample_clock
      sample_proc_ok ''all'' ''embedded'' True idle_world))) = [Completed] \<and>
   canRunScraper 2 (scraperRuns_tbl (snd (runScraperWorkflow sample_JSON_parse 2 sample_clock
      sample_proc_ok ''all'' ''embedded'' True idle_world))) 601000 ''linkedin'' =
     \<lparr>canRun = True, minutesUntilNext = 0\<rparr>"
proof -
  have ne: "''linkedin'' \<noteq> ''all''" by simp
  have nb: "first_blocked 2 (scraperRuns_tbl idle_world) (check_time sample_clock)
      (sources_of ''all'') = None"
    by (rule idle_not_blocked)
  have before: "canRunScraper 2 (scraperRuns_tbl idle_world) 601000 ''linkedin'' =
      \<lparr>canRun = True, minutesUntilNext = 0\<rparr>"
    by (simp add: canRunScraper_def completed_runs_of_def idle_world_def)
  have runs: "scraperRuns_tbl (snd (runScraperWorkflow sample_JSON_parse 2 sample_clock
      sample_proc_ok ''all'' ''embedded'' True idle_world)) =
      [close_completed (close_time sample_clock)
         (snd (upsertJobs (upsert_time sample_clock) (sample_result [sample_scraped2]) ''all''
                 (jobs_tbl idle_world)))
         (runRecord_of sample_clock ''all'' idle_world)]"
    by (simp add: wf_runs_tbl nb sample_ok_resolved) (simp add: idle_world_def)
  from all_run_starts_no_cooldown[OF ne, of 2 sample_JSON_parse 2 sample_clock sample_proc_ok
      "''embedded''" True idle_world 601000] before
  have "canRunScraper 2 (scraperRuns_tbl (snd (runScraperWorkflow sample_JSON_parse 2 sample_clock
      sample_proc_ok ''all'' ''embedded'' True idle_world))) 601000 ''linkedin'' =
     \<lparr>canRun = True, minutesUntilNext = 0\<rparr>"
    by simp
  moreover have "map run_source (scraperRuns_tbl (snd (runScraperWorkflow sample_JSON_parse 2
      sample_clock sample_proc_ok ''all'' ''embedded'' True idle_world))) = [''all'']"
    unfolding runs by (simp add: close_completed_def runRecord_fields)
  moreover have "map run_status (scraperRuns_tbl (snd (runScraperWorkflow sample_JSON_parse 2
      sample_clock sample_proc_ok ''all'' ''embedded'' True idle_world))) = [Completed]"
    unfolding runs by (simp add: close_completed_def)
  ultimately show ?thesis by blast
qed

end
